theory Spec2Isabelle
  imports Complex_Main "HOL-Library.Product_Lexorder"
begin

section \<open>Calendar instants\<close>

text \<open>
  Modelled from the spec: the module \<open>periods\<close> (\<open>periods.instant\<close>, \<open>Instant.offset\<close>,
  \<open>str(instant)\<close>) is not part of the sources at hand. The spec describes an instant as a
  calendar day, totally ordered, with offset-by-days and comparison. An instant is the
  triple (year, month, day), compared lexicographically as a Python tuple is; an ISO date
  string \<open>YYYY-MM-DD\<close> orders the same way, so the strings carried by legislation items
  are represented by the instants they denote.
\<close>

type_synonym instant = "int \<times> int \<times> int"

definition is_leap_year :: "int \<Rightarrow> bool" where
  "is_leap_year y = (y mod 4 = 0 \<and> (y mod 100 \<noteq> 0 \<or> y mod 400 = 0))"

definition month_last_day :: "int \<Rightarrow> int \<Rightarrow> int" where
  "month_last_day y m =
     (if m = 2 then (if is_leap_year y then 29 else 28)
      else if m = 4 \<or> m = 6 \<or> m = 9 \<or> m = 11 then 30
      else 31)"

text \<open>\<open>instant.offset(+1, 'day')\<close> and \<open>instant.offset(-1, 'day')\<close>.\<close>

fun offset_plus_day :: "instant \<Rightarrow> instant" where
  "offset_plus_day (y, m, d) =
     (if d + 1 \<le> month_last_day y m then (y, m, d + 1)
      else if m + 1 = 13 then (y + 1, 1, 1)
      else (y, m + 1, 1))"

fun offset_minus_day :: "instant \<Rightarrow> instant" where
  "offset_minus_day (y, m, d) =
     (if 1 \<le> d - 1 then (y, m, d - 1)
      else if m - 1 = 0 then (y - 1, 12, month_last_day (y - 1) 12)
      else (y, m - 1, month_last_day y (m - 1)))"

section \<open>Legislation timeline items and the patch of \<open>reforms.py\<close>\<close>

text \<open>An item is the dictionary with the keys \<open>start\<close>, \<open>stop\<close> and \<open>value\<close>.\<close>

record 'v item =
  start :: instant
  stop :: instant
  val :: 'v

text \<open>
  One turn of the \<open>for item in items\<close> loop of \<open>updated_legislation_items\<close>: the items
  appended to \<open>new_items\<close> and the new value of the flag \<open>inserted\<close>. The tests are the
  source's, in the source's order: the first two end with \<open>continue\<close>, the following
  three are plain \<open>if\<close> statements that run one after the other, and the last one
  (\<open>continue\<close> at the end of the body) does nothing.
\<close>

definition item_step ::
  "instant \<Rightarrow> instant \<Rightarrow> 'v \<Rightarrow> 'v item \<Rightarrow> bool \<Rightarrow> 'v item list \<times> bool" where
  "item_step new_item_start new_item_stop v it inserted =
     (let item_start = start it;
          item_stop = stop it;
          new_item = \<lparr>start = new_item_start, stop = new_item_stop, val = v\<rparr>;
          left_part = \<lparr>start = start it, stop = offset_minus_day new_item_start, val = val it\<rparr>;
          right_part = \<lparr>start = offset_plus_day new_item_stop, stop = stop it, val = val it\<rparr>
      in
      if item_stop < new_item_start \<or> item_start > new_item_stop then
        ([\<lparr>start = start it, stop = stop it, val = val it\<rparr>], inserted)
      else if item_stop = new_item_stop \<and> item_start = new_item_start then
        (if \<not> inserted then ([new_item], True) else ([], inserted))
      else
        let (out1, inserted1) =
              (if item_start < new_item_start \<and> item_stop \<le> new_item_stop
               then (left_part # (if \<not> inserted then [new_item] else []), True)
               else ([], inserted));
            (out2, inserted2) =
              (if item_start < new_item_start \<and> item_stop > new_item_stop
               then (left_part # (if \<not> inserted1 then [new_item] else []) @ [right_part], True)
               else ([], inserted1));
            (out3, inserted3) =
              (if item_start \<ge> new_item_start \<and> item_stop < new_item_stop
               then ((if \<not> inserted2 then [new_item] else []) @ [right_part], True)
               else ([], inserted2))
        in (out1 @ out2 @ out3, inserted3))"

text \<open>The loop, threading \<open>new_items\<close> and \<open>inserted\<close>.\<close>

fun items_loop ::
  "instant \<Rightarrow> instant \<Rightarrow> 'v \<Rightarrow> 'v item list \<Rightarrow> bool \<Rightarrow> 'v item list \<Rightarrow> 'v item list" where
  "items_loop ns ne v [] inserted new_items = new_items"
| "items_loop ns ne v (it # its) inserted new_items =
     (case item_step ns ne v it inserted of
        (out, inserted') \<Rightarrow> items_loop ns ne v its inserted' (new_items @ out))"

text \<open>
  \<open>sorted(new_items, key = lambda item: item['start'])\<close>: Python's sort is stable, as
  \<open>sort_key\<close> is.
\<close>

definition updated_legislation_items ::
  "'v item list \<Rightarrow> instant \<Rightarrow> instant \<Rightarrow> 'v \<Rightarrow> 'v item list" where
  "updated_legislation_items items start_instant stop_instant v =
     sort_key start (items_loop start_instant stop_instant v items False [])"

section \<open>Errors\<close>

text \<open>
  Every \<open>raise\<close> and every failing \<open>assert\<close> of the source is a value. The payload of
  an assertion is what its message is built from; the message of the dependency cycle
  carries the name of the column being computed and the set of the names of the columns
  of the formulas requested for the period (the source prints that set sorted and joined).
\<close>

datatype message =
    PeriodIsNone
  | InfiniteLoop string "string set"
  | WrongPeriodUnit string
  | OutputPeriodMissesStart string
  | VariableIsNone string string
  | MissingParameters
  | NotANumpyArray
  | WrongSize nat nat
  | ExpectedSize nat nat
  | UnknownEntity
  | EntityMismatch
  | PersonsEntity
  | NotPersonsEntity
  | RoleNotInt

datatype error =
    AssertionError message
  | NaNCreationError string "nat list"
  | IndexError
  | KeyError
  | ValueError
  | TypeError
  | UnboundLocalError

section \<open>Role scatter and gather of \<open>formulas.py\<close>\<close>

subsection \<open>The numpy operations the methods use\<close>

text \<open>
  A one-dimensional numpy array is a list. \<open>array[index_array]\<close> reads the cells named
  by an integer array: an index \<open>i\<close> with \<open>-n \<le> i < n\<close> is valid, a negative one counts
  from the end, any other raises \<open>IndexError\<close>.
\<close>

definition index_ok :: "nat \<Rightarrow> int \<Rightarrow> bool" where
  "index_ok n i = (- int n \<le> i \<and> i < int n)"

definition norm_index :: "nat \<Rightarrow> int \<Rightarrow> nat" where
  "norm_index n i = nat (if i < 0 then i + int n else i)"

definition np_take :: "'a list \<Rightarrow> int list \<Rightarrow> error + 'a list" where
  "np_take a idx =
     (if list_all (index_ok (length a)) idx
      then Inr (map (\<lambda>i. a ! norm_index (length a) i) idx)
      else Inl IndexError)"

text \<open>\<open>array[boolean_filter]\<close>: the cells where the mask holds, in order.\<close>

definition masked :: "'a list \<Rightarrow> bool list \<Rightarrow> 'a list" where
  "masked a m = map fst (filter snd (zip a m))"

definition np_mask :: "'a list \<Rightarrow> bool list \<Rightarrow> error + 'a list" where
  "np_mask a m = (if length m = length a then Inr (masked a m) else Inl IndexError)"

text \<open>
  \<open>target[boolean_filter] = values\<close>: the cells where the mask holds receive the values
  in order; the number of values must be the number of selected cells.
\<close>

fun put_mask :: "'a list \<Rightarrow> bool list \<Rightarrow> 'a list \<Rightarrow> 'a list" where
  "put_mask (t # ts) (b # bs) vs =
     (if b then (case vs of [] \<Rightarrow> t # ts | v # vs' \<Rightarrow> v # put_mask ts bs vs')
      else t # put_mask ts bs vs)"
| "put_mask ts bs vs = ts"

definition np_put_mask :: "'a list \<Rightarrow> bool list \<Rightarrow> 'a list \<Rightarrow> error + 'a list" where
  "np_put_mask target m vs =
     (if length m \<noteq> length target then Inl IndexError
      else if length vs \<noteq> length (filter id m) then Inl ValueError
      else Inr (put_mask target m vs))"

text \<open>
  \<open>target[index_array] = values\<close>: the assignments happen in the order of the index
  array, so that the last value written to a cell stays.
\<close>

fun put_seq :: "'a list \<Rightarrow> int list \<Rightarrow> 'a list \<Rightarrow> 'a list" where
  "put_seq target (i # idx) (v # vs) =
     put_seq (target[norm_index (length target) i := v]) idx vs"
| "put_seq target idx vs = target"

definition np_put :: "'a list \<Rightarrow> int list \<Rightarrow> 'a list \<Rightarrow> error + 'a list" where
  "np_put target idx vs =
     (if \<not> list_all (index_ok (length target)) idx then Inl IndexError
      else if length vs \<noteq> length idx then Inl ValueError
      else Inr (put_seq target idx vs))"

subsection \<open>Entities and the simulation\<close>

text \<open>
  The entity objects are declared outside \<open>formulas.py\<close>; the record holds the
  attributes the methods read. \<open>index_for_person\<close> and \<open>role_for_person\<close> are the
  arrays \<open>persons.holder_by_name[entity.index_for_person_variable_name].array\<close> and
  \<open>persons.holder_by_name[entity.role_for_person_variable_name].array\<close>: for each
  person the row of its group and its role code in that group.
\<close>

record entity =
  key_singular :: string
  count :: nat
  is_persons_entity :: bool
  roles_count :: int
  index_for_person :: "int list"
  role_for_person :: "int list"

record simulation =
  persons_count :: nat
  entity_by_key_singular :: "string \<rightharpoonup> entity"

text \<open>
  The first argument of the methods: a numpy array, a holder (its entity, its array and
  the default of its column), or anything else.
\<close>

datatype 'a array_or_holder =
    Ndarray "'a list"
  | Holder entity "'a list" 'a
  | NoArray

text \<open>
  \<open>boolean_filter = persons.holder_by_name[entity.role_for_person_variable_name].array == role\<close>
\<close>

definition boolean_filter :: "entity \<Rightarrow> int \<Rightarrow> bool list" where
  "boolean_filter e role = map (\<lambda>r. r = role) (role_for_person e)"

text \<open>
  The body of the loop of \<open>cast_from_entity_to_roles\<close>:
  \<open>target_array[boolean_filter] = array[entity_index_array[boolean_filter]]\<close>.
\<close>

definition cast_role :: "entity \<Rightarrow> 'a list \<Rightarrow> 'a list \<Rightarrow> int \<Rightarrow> error + 'a list" where
  "cast_role e array target_array role =
     (case np_mask (index_for_person e) (boolean_filter e role) of
        Inl err \<Rightarrow> Inl err
      | Inr rows \<Rightarrow>
          (case np_take array rows of
             Inl err \<Rightarrow> Inl err
           | Inr vs \<Rightarrow> np_put_mask target_array (boolean_filter e role) vs))"

fun cast_roles_loop :: "entity \<Rightarrow> 'a list \<Rightarrow> 'a list \<Rightarrow> int list \<Rightarrow> error + 'a list" where
  "cast_roles_loop e array target_array [] = Inr target_array"
| "cast_roles_loop e array target_array (role # roles) =
     (case cast_role e array target_array role of
        Inl err \<Rightarrow> Inl err
      | Inr target_array' \<Rightarrow> cast_roles_loop e array target_array' roles)"

text \<open>\<open>range(n)\<close> for an integer \<open>n\<close>.\<close>

definition range_upto :: "int \<Rightarrow> int list" where
  "range_upto n = map int [0..<nat n]"

definition cast_from_entity_to_roles ::
  "simulation \<Rightarrow> 'a::zero array_or_holder \<Rightarrow> 'a option \<Rightarrow> string option \<Rightarrow> int list option
     \<Rightarrow> error + 'a list" where
  "cast_from_entity_to_roles sim array_or_holder default_value entity roles =
     (let resolved =
        (case array_or_holder of
           Holder h_entity h_array h_default \<Rightarrow>
             (case entity of
                None \<Rightarrow> Inr (h_entity, h_array, case_option h_default id default_value)
              | Some k \<Rightarrow>
                  (case entity_by_key_singular sim k of
                     None \<Rightarrow> Inl (AssertionError UnknownEntity)
                   | Some e \<Rightarrow>
                       if e \<noteq> h_entity then Inl (AssertionError EntityMismatch)
                       else Inr (e, h_array, case_option h_default id default_value)))
         | _ \<Rightarrow>
             (case entity of
                None \<Rightarrow> Inl (AssertionError UnknownEntity)
              | Some k \<Rightarrow>
                  (case entity_by_key_singular sim k of
                     None \<Rightarrow> Inl (AssertionError UnknownEntity)
                   | Some e \<Rightarrow>
                       (case array_or_holder of
                          Ndarray array \<Rightarrow>
                            if length array \<noteq> count e
                            then Inl (AssertionError (ExpectedSize (count e) (length array)))
                            else Inr (e, array, case_option 0 id default_value)
                        | _ \<Rightarrow> Inl (AssertionError NotANumpyArray)))))
      in case resolved of
           Inl err \<Rightarrow> Inl err
         | Inr (e, array, d) \<Rightarrow>
             if is_persons_entity e then Inl (AssertionError PersonsEntity)
             else cast_roles_loop e array (replicate (persons_count sim) d)
                    (case roles of None \<Rightarrow> range_upto (roles_count e) | Some rs \<Rightarrow> rs))"

definition cast_from_entity_to_role ::
  "simulation \<Rightarrow> 'a::zero array_or_holder \<Rightarrow> 'a option \<Rightarrow> string option \<Rightarrow> int option
     \<Rightarrow> error + 'a list" where
  "cast_from_entity_to_role sim array_or_holder default_value entity role =
     (case role of
        None \<Rightarrow> Inl (AssertionError RoleNotInt)
      | Some r \<Rightarrow> cast_from_entity_to_roles sim array_or_holder default_value entity (Some [r]))"

text \<open>
  The part \<open>filter_role\<close> and \<open>split_by_roles\<close> share: the entity (the holder's own
  when none is named), the persons array and the default.
\<close>

definition resolve_persons_array ::
  "simulation \<Rightarrow> entity \<Rightarrow> 'a::zero array_or_holder \<Rightarrow> 'a option \<Rightarrow> string option
     \<Rightarrow> error + (entity \<times> 'a list \<times> 'a)" where
  "resolve_persons_array sim holder_entity array_or_holder default_value entity =
     (case (case entity of
              None \<Rightarrow> Inr holder_entity
            | Some k \<Rightarrow>
                (case entity_by_key_singular sim k of
                   None \<Rightarrow> Inl (AssertionError UnknownEntity)
                 | Some e \<Rightarrow> Inr e)) of
        Inl err \<Rightarrow> Inl err
      | Inr e \<Rightarrow>
          if is_persons_entity e then Inl (AssertionError PersonsEntity)
          else
            (case array_or_holder of
               Holder h_entity h_array h_default \<Rightarrow>
                 if \<not> is_persons_entity h_entity then Inl (AssertionError NotPersonsEntity)
                 else Inr (e, h_array, case_option h_default id default_value)
             | Ndarray array \<Rightarrow>
                 if length array \<noteq> persons_count sim
                 then Inl (AssertionError (ExpectedSize (persons_count sim) (length array)))
                 else Inr (e, array, case_option 0 id default_value)
             | NoArray \<Rightarrow> Inl (AssertionError NotANumpyArray)))"

text \<open>
  \<open>target_array[entity_index_array[boolean_filter]] = array[boolean_filter]\<close> on a
  fresh array of \<open>entity.count\<close> cells filled with the default (numpy converts it to the dtype of the array; here it already has the type of the cells).
\<close>

definition gather_role :: "entity \<Rightarrow> 'a list \<Rightarrow> 'a \<Rightarrow> int \<Rightarrow> error + 'a list" where
  "gather_role e array d role =
     (case np_mask (index_for_person e) (boolean_filter e role) of
        Inl err \<Rightarrow> Inl err
      | Inr rows \<Rightarrow>
          (case np_mask array (boolean_filter e role) of
             Inl err \<Rightarrow> Inl err
           | Inr vs \<Rightarrow> np_put (replicate (count e) d) rows vs))"

definition filter_role ::
  "simulation \<Rightarrow> entity \<Rightarrow> 'a::zero array_or_holder \<Rightarrow> 'a option \<Rightarrow> string option \<Rightarrow> int option
     \<Rightarrow> error + 'a list" where
  "filter_role sim holder_entity array_or_holder default_value entity role =
     (case resolve_persons_array sim holder_entity array_or_holder default_value entity of
        Inl err \<Rightarrow> Inl err
      | Inr (e, array, d) \<Rightarrow>
          (case role of
             None \<Rightarrow> Inl (AssertionError RoleNotInt)
           | Some r \<Rightarrow> gather_role e array d r))"

text \<open>The loop of \<open>split_by_roles\<close> fills the dictionary \<open>target_array_by_role\<close>.\<close>

fun split_loop ::
  "entity \<Rightarrow> 'a list \<Rightarrow> 'a \<Rightarrow> int list \<Rightarrow> (int \<rightharpoonup> 'a list) \<Rightarrow> error + (int \<rightharpoonup> 'a list)" where
  "split_loop e array d [] target_array_by_role = Inr target_array_by_role"
| "split_loop e array d (role # roles) target_array_by_role =
     (case gather_role e array d role of
        Inl err \<Rightarrow> Inl err
      | Inr target_array \<Rightarrow>
          split_loop e array d roles (target_array_by_role(role \<mapsto> target_array)))"

definition split_by_roles ::
  "simulation \<Rightarrow> entity \<Rightarrow> 'a::zero array_or_holder \<Rightarrow> 'a option \<Rightarrow> string option
     \<Rightarrow> int list option \<Rightarrow> error + (int \<rightharpoonup> 'a list)" where
  "split_by_roles sim holder_entity array_or_holder default_value entity roles =
     (case resolve_persons_array sim holder_entity array_or_holder default_value entity of
        Inl err \<Rightarrow> Inl err
      | Inr (e, array, d) \<Rightarrow>
          split_loop e array d
            (case roles of None \<Rightarrow> range_upto (max (roles_count e) 11) | Some rs \<Rightarrow> rs)
            Map.empty)"

text \<open>
  The first test of the loop body: the item lies entirely before or entirely after the
  new interval.
\<close>

definition disjoint_from :: "instant \<Rightarrow> instant \<Rightarrow> 'v item \<Rightarrow> bool" where
  "disjoint_from ns ne it = (stop it < ns \<or> start it > ne)"

definition overlapping :: "instant \<Rightarrow> instant \<Rightarrow> 'v item list \<Rightarrow> 'v item list" where
  "overlapping ns ne xs = filter (\<lambda>x. \<not> disjoint_from ns ne x) xs"

text \<open>A triple that names a day of the calendar.\<close>

definition valid_instant :: "instant \<Rightarrow> bool" where
  "valid_instant i =
     (case i of (y, m, d) \<Rightarrow> 1 \<le> m \<and> m \<le> 12 \<and> 1 \<le> d \<and> d \<le> month_last_day y m)"

text \<open>
  Every person holding the role sits in a row of the group entity.
\<close>

definition rows_in_range :: "entity \<Rightarrow> int \<Rightarrow> bool" where
  "rows_in_range e role =
     (\<forall>i<length (role_for_person e). role_for_person e ! i = role \<longrightarrow>
         0 \<le> index_for_person e ! i \<and> index_for_person e ! i < int (count e))"

text \<open>A small simulation: five persons in two households.\<close>

definition households :: entity where
  "households = \<lparr>key_singular = ''household'', count = 2, is_persons_entity = False,
     roles_count = 3, index_for_person = [0, 1, 0, 1, 1], role_for_person = [0, 0, 1, 1, 2]\<rparr>"

definition family_simulation :: simulation where
  "family_simulation =
     \<lparr>persons_count = 5, entity_by_key_singular = [''household'' \<mapsto> households]\<rparr>"

section \<open>The formula engine of \<open>formulas.py\<close>\<close>

subsection \<open>Periods, arrays, holders\<close>

text \<open>
  A period is the Python tuple \<open>(unit, start_instant, size)\<close>: \<open>period[0]\<close> is its unit
  and \<open>period[1]\<close> its start instant.
\<close>

datatype period_unit = Day | Month | Year

type_synonym period = "period_unit \<times> instant \<times> nat"

text \<open>
  A numpy array with its dtype. A cell is a number or the not-a-number value; only the
  presence of a not-a-number matters to the engine, never the arithmetic of the cells.
\<close>

datatype dtype = Float | Int | Bool | Other

datatype cell = Num real | NaN

record ndarray =
  array_dtype :: dtype
  cells :: "cell list"

text \<open>The attributes of \<open>holder.column\<close> the engine reads.\<close>

record column =
  column_name :: string
  is_period_invariant :: bool
  column_start :: "instant option"
  column_end :: "instant option"
  column_default :: cell
  column_dtype :: dtype

text \<open>
  A formula object is named by a number (the in-progress sets compare formulas by
  identity) and a holder by the name of its variable. A dated holder is a view of a
  holder at a period; the key \<open>None\<close> is the one entry of a period-invariant variable.
\<close>

type_synonym fid = nat

type_synonym dated_holder = "string \<times> period option"

text \<open>
  What the function of a formula receives by keyword and what it returns. The dictionary
  \<open>arguments\<close> is the list of its assignments, the latest first: a later assignment to
  a name shadows an earlier one.
\<close>

datatype argument =
    ArrayArg ndarray
  | HolderArg dated_holder ndarray
  | LegislationArg instant
  | ReferenceLegislationArg instant
  | SelfArg fid
  | PeriodArg "period option"
  | AccessorArg string instant

datatype py_value = PyNone | PyArray ndarray | PyOther

text \<open>
  A \<open>SimpleFormula\<close> class: its class attributes, the methods a subclass may override
  (\<open>get_output_period\<close>, \<open>get_variable_period\<close>, \<open>get_law_instant\<close>; the defaults are
  \<open>periods.base(self.period_unit, period[1])\<close>, the output period and its start
  instant) and its function, taken to read nothing but its arguments. The accessors are
  given by name and path.
\<close>

record simple_formula =
  formula_period_unit :: period_unit
  variables_name :: "string list"
  requires_legislation :: bool
  requires_reference_legislation :: bool
  requires_self :: bool
  requires_period :: bool
  legislation_accessor_by_name :: "(string \<times> string) list option"
  get_output_period :: "period \<Rightarrow> period"
  get_variable_period :: "period option \<Rightarrow> string \<Rightarrow> period option"
  get_law_instant :: "period \<Rightarrow> string \<Rightarrow> instant"
  formula_function :: "(string \<times> argument) list \<Rightarrow> error + py_value"

datatype formula =
    SimpleFormula simple_formula
  | AlternativeFormula "fid list"
  | DatedFormula "(fid \<times> instant \<times> instant) list"
  | SelectFormula "(string \<times> fid) list"

text \<open>
  The simulation as the engine sees it. \<open>stop_instant\<close> and \<open>intersection\<close> are the
  functions of the module \<open>periods\<close>, which is not among the sources: they are
  parameters. \<open>astype\<close> is numpy's conversion of an array to a dtype. Logging and the
  trace bookkeeping of \<open>simulation.trace\<close> are left out.
\<close>

record simulation_env =
  holder_column :: "string \<Rightarrow> column"
  holder_entity_count :: "string \<Rightarrow> nat"
  holder_formula :: "string \<Rightarrow> fid"
  formula_holder :: "fid \<Rightarrow> string"
  formula_class :: "fid \<Rightarrow> formula"
  simulation_debug :: bool
  stop_instant :: "period \<Rightarrow> instant"
  intersection :: "period \<Rightarrow> instant option \<Rightarrow> instant option \<Rightarrow> period option"
  astype :: "dtype \<Rightarrow> ndarray \<Rightarrow> ndarray"

text \<open>
  The mutable part: the arrays of the holders, the \<open>used_formula\<close> attributes, and a
  log of the calls of formula functions (formula and output period), which the source
  does not keep and which is there to state how often a function runs.
\<close>

record state =
  array_of :: "dated_holder \<Rightarrow> ndarray option"
  used_formula :: "fid \<Rightarrow> fid option"
  function_calls :: "(fid \<times> period option) list"

text \<open>\<open>requested_formulas_by_period\<close>: from period (or \<open>None\<close>) to a set of formulas.\<close>

type_synonym requested = "period option \<Rightarrow> fid set option"

datatype outcome = Return dated_holder | Raise error | OutOfFuel

type_synonym result = "outcome \<times> requested \<times> state"

text \<open>
  Modelled from the spec: \<open>Holder.at_period\<close> and the \<open>array\<close> attribute of a dated
  holder live in \<open>holders.py\<close>, which is not among the sources. The spec: a holder maps a
  computed period to an array; a period-invariant variable has at most one entry, keyed
  by a sentinel; otherwise entries are keyed by the exact period.
\<close>

definition at_period :: "simulation_env \<Rightarrow> string \<Rightarrow> period option \<Rightarrow> dated_holder" where
  "at_period env v period =
     (v, if is_period_invariant (holder_column env v) then None else period)"

definition set_array :: "dated_holder \<Rightarrow> ndarray \<Rightarrow> state \<Rightarrow> state" where
  "set_array dh a st = st\<lparr>array_of := (array_of st)(dh \<mapsto> a)\<rparr>"

subsection \<open>The opening every \<open>compute\<close> shares\<close>

text \<open>
  The four \<open>compute\<close> methods open with the same lines: the assertion on the period,
  the creation of the dictionary, the period key, and the test of the in-progress set.
  The opening either leaves the method (returning the dated holder of the requested
  period in lazy mode, or failing the assertion ``Infinite loop in formula ...'') or
  goes on with the period, the key and the dictionary.
\<close>

datatype entry = Leave outcome requested | Go period "period option" requested

definition requested_names :: "simulation_env \<Rightarrow> fid set \<Rightarrow> string set" where
  "requested_names env S = (\<lambda>g. column_name (holder_column env (formula_holder env g))) ` S"

definition open_compute ::
  "simulation_env \<Rightarrow> fid \<Rightarrow> bool \<Rightarrow> period option \<Rightarrow> requested option \<Rightarrow> entry" where
  "open_compute env f lazy period requested_formulas_by_period =
     (case period of
        None \<Rightarrow>
          Leave (Raise (AssertionError PeriodIsNone))
            (case requested_formulas_by_period of None \<Rightarrow> Map.empty | Some r \<Rightarrow> r)
      | Some p \<Rightarrow>
          let req = (case requested_formulas_by_period of None \<Rightarrow> Map.empty | Some r \<Rightarrow> r);
              v = formula_holder env f;
              period_or_none = (if is_period_invariant (holder_column env v) then None else Some p)
          in case req period_or_none of
               None \<Rightarrow> Go p period_or_none (req(period_or_none \<mapsto> {}))
             | Some period_requested_formulas \<Rightarrow>
                 if lazy then
                   (if f \<in> period_requested_formulas
                    then Leave (Return (at_period env v (Some p))) req
                    else Go p period_or_none req)
                 else
                   (if f \<in> period_requested_formulas
                    then Leave (Raise (AssertionError
                           (InfiniteLoop (column_name (holder_column env v))
                              (requested_names env period_requested_formulas)))) req
                    else Go p period_or_none req))"

text \<open>\<open>period_requested_formulas.add(self)\<close> and \<open>period_requested_formulas.remove(self)\<close>;
  the latter raises \<open>KeyError\<close> when the formula is not in the set.\<close>

definition add_requested :: "requested \<Rightarrow> period option \<Rightarrow> fid \<Rightarrow> requested" where
  "add_requested req key f =
     req(key \<mapsto> insert f (case req key of None \<Rightarrow> {} | Some S \<Rightarrow> S))"

definition remove_requested :: "requested \<Rightarrow> period option \<Rightarrow> fid \<Rightarrow> error + requested" where
  "remove_requested req key f =
     (case req key of
        None \<Rightarrow> Inl KeyError
      | Some S \<Rightarrow> if f \<in> S then Inr (req(key \<mapsto> S - {f})) else Inl KeyError)"

text \<open>The end of a method: remove the formula and return the dated holder.\<close>

definition remove_and_return ::
  "requested \<Rightarrow> period option \<Rightarrow> fid \<Rightarrow> dated_holder \<Rightarrow> state \<Rightarrow> result" where
  "remove_and_return req key f dh st =
     (case remove_requested req key f of
        Inl err \<Rightarrow> (Raise err, req, st)
      | Inr req' \<Rightarrow> (Return dh, req', st))"

text \<open>
  Modelled from the spec: \<open>Holder.compute\<close> (and \<open>simulation.compute\<close>, which calls it
  on the holder of the named variable) is in \<open>holders.py\<close>, not among the sources. The
  spec: if the holder already has an array for the period, return it, no recomputation;
  otherwise delegate to the \<open>compute\<close> of the holder's formula. \<open>rec\<close> is that
  \<open>compute\<close>.
\<close>

definition holder_compute ::
  "(fid \<Rightarrow> bool \<Rightarrow> period option \<Rightarrow> requested option \<Rightarrow> state \<Rightarrow> result)
     \<Rightarrow> simulation_env \<Rightarrow> string \<Rightarrow> bool \<Rightarrow> period option \<Rightarrow> requested \<Rightarrow> state \<Rightarrow> result" where
  "holder_compute rec env v lazy period req st =
     (let dated_holder = at_period env v period
      in case array_of st dated_holder of
           Some a \<Rightarrow> (Return dated_holder, req, st)
         | None \<Rightarrow> rec (holder_formula env v) lazy period (Some req) st)"

subsection \<open>\<open>SimpleFormula.compute\<close>\<close>

text \<open>\<open>variable_name.endswith('_holder')\<close> and the name without that suffix.\<close>

definition ends_with_holder :: "string \<Rightarrow> bool" where
  "ends_with_holder variable_name =
     (length ''_holder'' \<le> length variable_name \<and>
      drop (length variable_name - length ''_holder'') variable_name = ''_holder'')"

definition clean_variable_name :: "string \<Rightarrow> string" where
  "clean_variable_name variable_name =
     (if ends_with_holder variable_name
      then take (length variable_name - length ''_holder'') variable_name
      else variable_name)"

text \<open>
  The loop over \<open>holder_by_variable_name\<close>: each input variable is computed through its
  holder, for the period \<open>get_variable_period\<close> gives. A variable without array ends
  the loop: in lazy mode the formula cannot be computed yet, otherwise the assertion
  ``variable is None, although not in lazy mode'' fails.
\<close>

datatype variables_result =
    Resolved "(string \<times> argument) list"
  | Missing
  | Failed error
  | Exhausted

fun compute_variables ::
  "(fid \<Rightarrow> bool \<Rightarrow> period option \<Rightarrow> requested option \<Rightarrow> state \<Rightarrow> result)
     \<Rightarrow> simulation_env \<Rightarrow> string \<Rightarrow> simple_formula \<Rightarrow> bool \<Rightarrow> period option \<Rightarrow> string list
     \<Rightarrow> (string \<times> argument) list \<Rightarrow> requested \<Rightarrow> state
     \<Rightarrow> variables_result \<times> requested \<times> state" where
  "compute_variables rec env name_of_column s lazy output_period [] arguments req st =
     (Resolved arguments, req, st)"
| "compute_variables rec env name_of_column s lazy output_period (variable_name # names) arguments req st =
     (let variable_period = get_variable_period s output_period variable_name in
      case holder_compute rec env (clean_variable_name variable_name) lazy variable_period req st of
        (Raise err, req', st') \<Rightarrow> (Failed err, req', st')
      | (OutOfFuel, req', st') \<Rightarrow> (Exhausted, req', st')
      | (Return variable_dated_holder, req', st') \<Rightarrow>
          (case array_of st' variable_dated_holder of
             None \<Rightarrow>
               if lazy then (Missing, req', st')
               else (Failed (AssertionError (VariableIsNone name_of_column variable_name)), req', st')
           | Some a \<Rightarrow>
               compute_variables rec env name_of_column s lazy output_period names
                 ((variable_name,
                    (if ends_with_holder variable_name then HolderArg variable_dated_holder a
                     else ArrayArg a)) # arguments)
                 req' st'))"

text \<open>
  The arguments added after the loop: \<open>_P\<close>, \<open>_defaultP\<close>, \<open>self\<close>, \<open>period\<close> and the
  legislation accessors. A legislation is represented by the instant it is taken at.
  \<open>output_period[1]\<close> needs an output period: the intersection with the validity window
  of the column may have left none, and then indexing \<open>None\<close> raises \<open>TypeError\<close>.
\<close>

definition put_argument ::
  "bool \<Rightarrow> string \<Rightarrow> (period \<Rightarrow> argument) \<Rightarrow> period option
     \<Rightarrow> error + (string \<times> argument) list \<Rightarrow> error + (string \<times> argument) list" where
  "put_argument required name_of_argument value_at output_period arguments =
     (case arguments of
        Inl err \<Rightarrow> Inl err
      | Inr args \<Rightarrow>
          if \<not> required then Inr args
          else (case output_period of
                  None \<Rightarrow> Inl TypeError
                | Some p \<Rightarrow> Inr ((name_of_argument, value_at p) # args)))"

fun put_accessors ::
  "simple_formula \<Rightarrow> (string \<times> string) list \<Rightarrow> period option
     \<Rightarrow> error + (string \<times> argument) list \<Rightarrow> error + (string \<times> argument) list" where
  "put_accessors s [] output_period arguments = arguments"
| "put_accessors s ((accessor_name, path) # accessors) output_period arguments =
     put_accessors s accessors output_period
       (put_argument True accessor_name
          (\<lambda>p. AccessorArg path (get_law_instant s p path)) output_period arguments)"

definition other_arguments ::
  "fid \<Rightarrow> simple_formula \<Rightarrow> period option \<Rightarrow> (string \<times> argument) list
     \<Rightarrow> error + (string \<times> argument) list" where
  "other_arguments f s output_period arguments =
     put_accessors s
       (case legislation_accessor_by_name s of None \<Rightarrow> [] | Some accessors \<Rightarrow> accessors)
       output_period
       (case put_argument (requires_reference_legislation s) ''_defaultP''
               (\<lambda>p. ReferenceLegislationArg (fst (snd p))) output_period
               (put_argument (requires_legislation s) ''_P''
                  (\<lambda>p. LegislationArg (fst (snd p))) output_period (Inr arguments)) of
          Inl err \<Rightarrow> Inl err
        | Inr args \<Rightarrow>
            let args = (if requires_self s then (''self'', SelfArg f) # args else args)
            in Inr (if requires_period s then (''period'', PeriodArg output_period) # args
                    else args))"

text \<open>The names the function requires: \<open>required_parameters\<close> at the assertion.\<close>

definition required_parameters :: "simple_formula \<Rightarrow> string set" where
  "required_parameters s =
     set (variables_name s)
     \<union> (case legislation_accessor_by_name s of None \<Rightarrow> {} | Some accessors \<Rightarrow> fst ` set accessors)
     \<union> (if requires_legislation s then {''_P''} else {})
     \<union> (if requires_reference_legislation s then {''_defaultP''} else {})
     \<union> (if requires_self s then {''self''} else {})
     \<union> (if requires_period s then {''period''} else {})"

text \<open>
  The checks on the array a function returned, up to the cast to the dtype of the
  column. \<open>np.min\<close> of an array without cells raises \<open>ValueError\<close>; \<open>np.isnan\<close> of a
  minimum that is no number raises the \<open>TypeError\<close> the source catches; the minimum of a
  numeric array is not-a-number exactly when a cell is.
\<close>

definition nan_indices :: "cell list \<Rightarrow> nat list" where
  "nan_indices cs = filter (\<lambda>i. cs ! i = NaN) [0..<length cs]"

definition check_array :: "simulation_env \<Rightarrow> string \<Rightarrow> ndarray \<Rightarrow> error + ndarray" where
  "check_array env v array =
     (let col = holder_column env v in
      if length (cells array) \<noteq> holder_entity_count env v
      then Inl (AssertionError (WrongSize (length (cells array)) (holder_entity_count env v)))
      else if \<not> simulation_debug env \<and> cells array = [] then Inl ValueError
      else if \<not> simulation_debug env \<and> array_dtype array \<noteq> Other \<and> NaN \<in> set (cells array)
      then Inl (NaNCreationError (column_name col) (nan_indices (cells array)))
      else Inr (if array_dtype array \<noteq> column_dtype col then astype env (column_dtype col) array
                else array))"

text \<open>From the call of the function to the end of the method.\<close>

definition call_function ::
  "simulation_env \<Rightarrow> fid \<Rightarrow> simple_formula \<Rightarrow> period option \<Rightarrow> period option
     \<Rightarrow> (string \<times> argument) list \<Rightarrow> requested \<Rightarrow> state \<Rightarrow> result" where
  "call_function env f s period_or_none output_period arguments req st =
     (let v = formula_holder env f;
          dated_holder = at_period env v output_period;
          st_called = st\<lparr>function_calls := function_calls st @ [(f, output_period)]\<rparr>
      in case formula_function s arguments of
           Inl err \<Rightarrow> (Raise err, req, st_called)
         | Inr PyNone \<Rightarrow> remove_and_return req period_or_none f dated_holder st_called
         | Inr PyOther \<Rightarrow> (Raise (AssertionError NotANumpyArray), req, st_called)
         | Inr (PyArray array) \<Rightarrow>
             (case check_array env v array of
                Inl err \<Rightarrow> (Raise err, req, st_called)
              | Inr array' \<Rightarrow>
                  remove_and_return req period_or_none f dated_holder
                    (set_array dated_holder array' st_called)))"

definition SimpleFormula_compute ::
  "(fid \<Rightarrow> bool \<Rightarrow> period option \<Rightarrow> requested option \<Rightarrow> state \<Rightarrow> result)
     \<Rightarrow> simulation_env \<Rightarrow> fid \<Rightarrow> simple_formula \<Rightarrow> bool \<Rightarrow> period option \<Rightarrow> requested option
     \<Rightarrow> state \<Rightarrow> result" where
  "SimpleFormula_compute rec env f s lazy period requested_formulas_by_period st =
     (case open_compute env f lazy period requested_formulas_by_period of
        Leave out req \<Rightarrow> (out, req, st)
      | Go p period_or_none req \<Rightarrow>
          let v = formula_holder env f;
              col = holder_column env v;
              output_period = get_output_period s p
          in
          if fst output_period \<noteq> formula_period_unit s
          then (Raise (AssertionError (WrongPeriodUnit (column_name col))), req, st)
          else if \<not> (fst (snd output_period) \<le> fst (snd p)
                      \<and> fst (snd p) \<le> stop_instant env output_period)
          then (Raise (AssertionError (OutputPeriodMissesStart (column_name col))), req, st)
          else
            let output_period = intersection env output_period (column_start col) (column_end col);
                dated_holder = at_period env v output_period
            in
            if array_of st dated_holder \<noteq> None then (Return dated_holder, req, st)
            else
              let req = add_requested req period_or_none f in
              case compute_variables rec env (column_name col) s lazy output_period
                     (variables_name s) [] req st of
                (Failed err, req', st') \<Rightarrow> (Raise err, req', st')
              | (Exhausted, req', st') \<Rightarrow> (OutOfFuel, req', st')
              | (Missing, req', st') \<Rightarrow>
                  remove_and_return req' period_or_none f (at_period env v output_period) st'
              | (Resolved arguments, req', st') \<Rightarrow>
                  (case other_arguments f s output_period arguments of
                     Inl err \<Rightarrow> (Raise err, req', st')
                   | Inr arguments \<Rightarrow>
                       if set (map fst arguments) \<noteq> required_parameters s
                       then (Raise (AssertionError MissingParameters), req', st')
                       else call_function env f s period_or_none output_period arguments req' st'))"

subsection \<open>\<open>AlternativeFormula.compute\<close>\<close>

text \<open>
  The loop over the alternatives: each one is computed lazily on a copy of the
  dictionary, so that what it writes there is lost when it returns. The loop stops at the
  first alternative that has an array; otherwise it leaves the dated holder of the last.
\<close>

datatype alternatives_result =
    Found fid dated_holder
  | NoneFound "dated_holder option"
  | AlternativeFailed error
  | AlternativeExhausted

fun try_alternatives ::
  "(fid \<Rightarrow> bool \<Rightarrow> period option \<Rightarrow> requested option \<Rightarrow> state \<Rightarrow> result)
     \<Rightarrow> fid list \<Rightarrow> period \<Rightarrow> requested \<Rightarrow> dated_holder option \<Rightarrow> state
     \<Rightarrow> alternatives_result \<times> state" where
  "try_alternatives rec [] p req dated_holder st = (NoneFound dated_holder, st)"
| "try_alternatives rec (alternative_formula # alternatives) p req dated_holder st =
     (case rec alternative_formula True (Some p) (Some req) st of
        (Raise err, new_requested, st') \<Rightarrow> (AlternativeFailed err, st')
      | (OutOfFuel, new_requested, st') \<Rightarrow> (AlternativeExhausted, st')
      | (Return dh, new_requested, st') \<Rightarrow>
          if array_of st' dh \<noteq> None then (Found alternative_formula dh, st')
          else try_alternatives rec alternatives p req (Some dh) st')"

definition AlternativeFormula_compute ::
  "(fid \<Rightarrow> bool \<Rightarrow> period option \<Rightarrow> requested option \<Rightarrow> state \<Rightarrow> result)
     \<Rightarrow> simulation_env \<Rightarrow> fid \<Rightarrow> fid list \<Rightarrow> bool \<Rightarrow> period option \<Rightarrow> requested option
     \<Rightarrow> state \<Rightarrow> result" where
  "AlternativeFormula_compute rec env f alternative_formulas lazy period
       requested_formulas_by_period st =
     (case open_compute env f lazy period requested_formulas_by_period of
        Leave out req \<Rightarrow> (out, req, st)
      | Go p period_or_none req \<Rightarrow>
          let req = add_requested req period_or_none f in
          case try_alternatives rec alternative_formulas p req None st of
            (AlternativeFailed err, st') \<Rightarrow> (Raise err, req, st')
          | (AlternativeExhausted, st') \<Rightarrow> (OutOfFuel, req, st')
          | (Found alternative_formula dh, st') \<Rightarrow>
              remove_and_return req period_or_none f dh
                (st'\<lparr>used_formula := (used_formula st')(f \<mapsto> alternative_formula)\<rparr>)
          | (NoneFound last_holder, st') \<Rightarrow>
              if lazy then
                (case last_holder of
                   None \<Rightarrow> (Raise UnboundLocalError, req, st')
                 | Some dh \<Rightarrow> remove_and_return req period_or_none f dh st')
              else
                (case alternative_formulas of
                   [] \<Rightarrow> (Raise IndexError, req, st')
                 | alternative_formula # _ \<Rightarrow>
                     (case rec alternative_formula lazy (Some p) (Some req)
                             (st'\<lparr>used_formula := (used_formula st')(f \<mapsto> alternative_formula)\<rparr>) of
                        (Return dh, req', st'') \<Rightarrow> remove_and_return req' period_or_none f dh st''
                      | (out, req', st'') \<Rightarrow> (out, req', st''))))"

subsection \<open>\<open>DatedFormula.compute\<close>\<close>

text \<open>
  The loop over the dated formulas: \<open>break\<close> when a formula starts after the period or
  has no array, \<open>continue\<close> when its interval misses the period, and return from the
  method at the first formula with an array. After the loop the array of the variable's
  default is written to the last dated holder, or to the one of the requested period.
\<close>

datatype dated_result =
    DatedFound fid dated_holder
  | DatedNone "dated_holder option"
  | DatedFailed error
  | DatedExhausted

fun try_dated_formulas ::
  "(fid \<Rightarrow> bool \<Rightarrow> period option \<Rightarrow> requested option \<Rightarrow> state \<Rightarrow> result)
     \<Rightarrow> simulation_env \<Rightarrow> (fid \<times> instant \<times> instant) list \<Rightarrow> bool \<Rightarrow> period \<Rightarrow> requested
     \<Rightarrow> state \<Rightarrow> dated_result \<times> requested \<times> state" where
  "try_dated_formulas rec env [] lazy p req st = (DatedNone None, req, st)"
| "try_dated_formulas rec env ((dated_formula, start_instant, stop_instant') # dated_formulas)
       lazy p req st =
     (if start_instant > stop_instant env p then (DatedNone None, req, st)
      else case intersection env p (Some start_instant) (Some stop_instant') of
             None \<Rightarrow> try_dated_formulas rec env dated_formulas lazy p req st
           | Some output_period \<Rightarrow>
               (case rec dated_formula lazy (Some output_period) (Some req) st of
                  (Raise err, req', st') \<Rightarrow> (DatedFailed err, req', st')
                | (OutOfFuel, req', st') \<Rightarrow> (DatedExhausted, req', st')
                | (Return dh, req', st') \<Rightarrow>
                    if array_of st' dh = None then (DatedNone (Some dh), req', st')
                    else (DatedFound dated_formula dh, req', st')))"

definition default_array :: "simulation_env \<Rightarrow> string \<Rightarrow> ndarray" where
  "default_array env v =
     \<lparr>array_dtype = column_dtype (holder_column env v),
      cells = replicate (holder_entity_count env v) (column_default (holder_column env v))\<rparr>"

definition DatedFormula_compute ::
  "(fid \<Rightarrow> bool \<Rightarrow> period option \<Rightarrow> requested option \<Rightarrow> state \<Rightarrow> result)
     \<Rightarrow> simulation_env \<Rightarrow> fid \<Rightarrow> (fid \<times> instant \<times> instant) list \<Rightarrow> bool \<Rightarrow> period option
     \<Rightarrow> requested option \<Rightarrow> state \<Rightarrow> result" where
  "DatedFormula_compute rec env f dated_formulas lazy period requested_formulas_by_period st =
     (case open_compute env f lazy period requested_formulas_by_period of
        Leave out req \<Rightarrow> (out, req, st)
      | Go p period_or_none req \<Rightarrow>
          let v = formula_holder env f;
              req = add_requested req period_or_none f
          in case try_dated_formulas rec env dated_formulas lazy p req st of
               (DatedFailed err, req', st') \<Rightarrow> (Raise err, req', st')
             | (DatedExhausted, req', st') \<Rightarrow> (OutOfFuel, req', st')
             | (DatedFound dated_formula dh, req', st') \<Rightarrow>
                 remove_and_return req' period_or_none f dh
                   (st'\<lparr>used_formula := (used_formula st')(f \<mapsto> dated_formula)\<rparr>)
             | (DatedNone last_holder, req', st') \<Rightarrow>
                 let dated_holder = (case last_holder of None \<Rightarrow> at_period env v (Some p) | Some dh \<Rightarrow> dh)
                 in remove_and_return req' period_or_none f dated_holder
                      (set_array dated_holder (default_array env v) st'))"

subsection \<open>\<open>SelectFormula.compute\<close>\<close>

text \<open>
  The loop over \<open>formula_by_main_variable\<close>: the first main variable that has an array
  (computed lazily through the simulation) selects its formula; the \<open>else\<close> of the loop
  selects the first formula.
\<close>

datatype select_result =
    Selected "fid option"
  | SelectFailed error
  | SelectExhausted

fun select_formula ::
  "(fid \<Rightarrow> bool \<Rightarrow> period option \<Rightarrow> requested option \<Rightarrow> state \<Rightarrow> result)
     \<Rightarrow> simulation_env \<Rightarrow> (string \<times> fid) list \<Rightarrow> period \<Rightarrow> requested \<Rightarrow> state
     \<Rightarrow> select_result \<times> requested \<times> state" where
  "select_formula rec env [] p req st = (Selected None, req, st)"
| "select_formula rec env ((main_variable, formula) # others) p req st =
     (case holder_compute rec env main_variable True (Some p) req st of
        (Raise err, req', st') \<Rightarrow> (SelectFailed err, req', st')
      | (OutOfFuel, req', st') \<Rightarrow> (SelectExhausted, req', st')
      | (Return dh, req', st') \<Rightarrow>
          if array_of st' dh \<noteq> None then (Selected (Some formula), req', st')
          else select_formula rec env others p req' st')"

definition SelectFormula_compute ::
  "(fid \<Rightarrow> bool \<Rightarrow> period option \<Rightarrow> requested option \<Rightarrow> state \<Rightarrow> result)
     \<Rightarrow> simulation_env \<Rightarrow> fid \<Rightarrow> (string \<times> fid) list \<Rightarrow> bool \<Rightarrow> period option
     \<Rightarrow> requested option \<Rightarrow> state \<Rightarrow> result" where
  "SelectFormula_compute rec env f formula_by_main_variable lazy period
       requested_formulas_by_period st =
     (case open_compute env f lazy period requested_formulas_by_period of
        Leave out req \<Rightarrow> (out, req, st)
      | Go p period_or_none req \<Rightarrow>
          let req = add_requested req period_or_none f in
          case select_formula rec env formula_by_main_variable p req st of
            (SelectFailed err, req', st') \<Rightarrow> (Raise err, req', st')
          | (SelectExhausted, req', st') \<Rightarrow> (OutOfFuel, req', st')
          | (Selected choice, req', st') \<Rightarrow>
              (case (case choice of
                       Some formula \<Rightarrow> Some formula
                     | None \<Rightarrow> (case formula_by_main_variable of
                                  [] \<Rightarrow> None
                                | (main_variable, formula) # _ \<Rightarrow> Some formula)) of
                 None \<Rightarrow> (Raise IndexError, req', st')
               | Some selected_formula \<Rightarrow>
                   (case rec selected_formula lazy (Some p) (Some req')
                           (st'\<lparr>used_formula := (used_formula st')(f \<mapsto> selected_formula)\<rparr>) of
                      (Return dh, req'', st'') \<Rightarrow>
                        remove_and_return req'' period_or_none f dh st''
                    | (out, req'', st'') \<Rightarrow> (out, req'', st''))))"

subsection \<open>The dispatch\<close>

text \<open>
  \<open>formula.compute(lazy, period, requested_formulas_by_period)\<close>, by the class of the
  formula. The recursion of the source is not bounded by any measure of its arguments (a
  formula may ask for ever earlier periods), so the embedding counts the depth of the
  calls: \<open>compute n\<close> allows \<open>n\<close> nested calls of \<open>compute\<close> and gives \<open>OutOfFuel\<close> when
  they do not suffice.
\<close>

fun compute ::
  "nat \<Rightarrow> simulation_env \<Rightarrow> fid \<Rightarrow> bool \<Rightarrow> period option \<Rightarrow> requested option \<Rightarrow> state
     \<Rightarrow> result" where
  "compute 0 env f lazy period requested_formulas_by_period st =
     (OutOfFuel,
      (case requested_formulas_by_period of None \<Rightarrow> Map.empty | Some r \<Rightarrow> r), st)"
| "compute (Suc n) env f lazy period requested_formulas_by_period st =
     (case formula_class env f of
        SimpleFormula s \<Rightarrow>
          SimpleFormula_compute (compute n env) env f s lazy period
            requested_formulas_by_period st
      | AlternativeFormula alternative_formulas \<Rightarrow>
          AlternativeFormula_compute (compute n env) env f alternative_formulas lazy period
            requested_formulas_by_period st
      | DatedFormula dated_formulas \<Rightarrow>
          DatedFormula_compute (compute n env) env f dated_formulas lazy period
            requested_formulas_by_period st
      | SelectFormula formula_by_main_variable \<Rightarrow>
          SelectFormula_compute (compute n env) env f formula_by_main_variable lazy period
            requested_formulas_by_period st)"

subsection \<open>Vocabulary of the properties\<close>

text \<open>
  The formulas marked in progress for a key; the key of a formula and a period
  (\<open>period_or_none\<close>); a function standing for \<open>compute\<close> that leaves the marks as it
  found them whenever it returns, and one that removes no mark of its caller when it
  fails; the output period of a simple formula clipped to the validity window of its
  column, and the two assertions on the output period.
\<close>

definition in_progress :: "requested \<Rightarrow> period option \<Rightarrow> fid set" where
  "in_progress req key = (case req key of None \<Rightarrow> {} | Some S \<Rightarrow> S)"

definition period_key :: "simulation_env \<Rightarrow> fid \<Rightarrow> period \<Rightarrow> period option" where
  "period_key env f p =
     (if is_period_invariant (holder_column env (formula_holder env f)) then None else Some p)"

definition restores ::
  "(fid \<Rightarrow> bool \<Rightarrow> period option \<Rightarrow> requested option \<Rightarrow> state \<Rightarrow> result) \<Rightarrow> bool" where
  "restores rec =
     (\<forall>f lazy period req st dh req' st'.
        rec f lazy period (Some req) st = (Return dh, req', st') \<longrightarrow>
        in_progress req' = in_progress req)"

definition keeps ::
  "(fid \<Rightarrow> bool \<Rightarrow> period option \<Rightarrow> requested option \<Rightarrow> state \<Rightarrow> result) \<Rightarrow> bool" where
  "keeps rec =
     (\<forall>f lazy period req st err req' st'.
        rec f lazy period (Some req) st = (Raise err, req', st') \<longrightarrow>
        (\<forall>key. in_progress req key \<subseteq> in_progress req' key))"

definition clipped_output_period ::
  "simulation_env \<Rightarrow> fid \<Rightarrow> simple_formula \<Rightarrow> period \<Rightarrow> period option" where
  "clipped_output_period env f s p =
     intersection env (get_output_period s p)
       (column_start (holder_column env (formula_holder env f)))
       (column_end (holder_column env (formula_holder env f)))"

definition output_period_accepted :: "simulation_env \<Rightarrow> simple_formula \<Rightarrow> period \<Rightarrow> bool" where
  "output_period_accepted env s p =
     (fst (get_output_period s p) = formula_period_unit s \<and>
      fst (snd (get_output_period s p)) \<le> fst (snd p) \<and>
      fst (snd p) \<le> stop_instant env (get_output_period s p))"

text \<open>
  A call of \<open>compute\<close> reaches \<open>period_requested_formulas.add(self)\<close>: the opening is
  passed and, for a \<open>SimpleFormula\<close>, whose method adds the formula later than the other
  three, the two assertions on the output period hold and the holder has no array for
  the output period.
\<close>

definition adds_mark ::
  "simulation_env \<Rightarrow> fid \<Rightarrow> bool \<Rightarrow> period option \<Rightarrow> requested option \<Rightarrow> state \<Rightarrow> bool" where
  "adds_mark env f lazy period requested_formulas_by_period st =
     (case open_compute env f lazy period requested_formulas_by_period of
        Leave out req \<Rightarrow> False
      | Go p key req \<Rightarrow>
          (case formula_class env f of
             SimpleFormula s \<Rightarrow>
               output_period_accepted env s p \<and>
               array_of st (at_period env (formula_holder env f) (clipped_output_period env f s p))
                 = None
           | _ \<Rightarrow> True))"

subsection \<open>A small simulation\<close>

text \<open>
  Eight variables over an entity of two members, all with yearly formulas: \<open>salary\<close> is
  a constant, \<open>tax\<close> reads \<open>salary\<close>, the function of \<open>age\<close> returns three cells, the one
  of \<open>rate\<close> a not-a-number, \<open>a\<close> and \<open>b\<close> read each other, the function of \<open>bonus\<close>,
  which reads no variable, returns \<open>None\<close>, and \<open>income\<close> has an \<open>AlternativeFormula\<close>
  (formula 7) with one alternative (formula 8, on the same holder), whose function
  returns three cells. The output period of a
  formula is the year of the start of the requested period; no column has a validity
  window, so that the intersection with it is the output period itself; a yearly period
  that starts on the first of January stops on the last day of its last year.
\<close>

definition year_2014 :: period where
  "year_2014 = (Year, (2014, 1, 1), 1)"

definition example_column :: "string \<Rightarrow> column" where
  "example_column v =
     \<lparr>column_name = v, is_period_invariant = False, column_start = None, column_end = None,
      column_default = Num 0, column_dtype = Float\<rparr>"

definition example_simple ::
  "string list \<Rightarrow> ((string \<times> argument) list \<Rightarrow> error + py_value) \<Rightarrow> simple_formula" where
  "example_simple names fn =
     \<lparr>formula_period_unit = Year, variables_name = names, requires_legislation = False,
      requires_reference_legislation = False, requires_self = False, requires_period = False,
      legislation_accessor_by_name = None,
      get_output_period = (\<lambda>p. (Year, (fst (fst (snd p)), 1, 1), 1)),
      get_variable_period = (\<lambda>output_period variable_name. output_period),
      get_law_instant = (\<lambda>p path. fst (snd p)),
      formula_function = fn\<rparr>"

definition salary_formula :: simple_formula where
  "salary_formula =
     example_simple []
       (\<lambda>args. Inr (PyArray \<lparr>array_dtype = Float, cells = [Num 1000, Num 2000]\<rparr>))"

definition tax_formula :: simple_formula where
  "tax_formula =
     example_simple [''salary'']
       (\<lambda>args. case map_of args ''salary'' of
                  Some (ArrayArg a) \<Rightarrow> Inr (PyArray a)
                | _ \<Rightarrow> Inr PyNone)"

definition age_formula :: simple_formula where
  "age_formula =
     example_simple []
       (\<lambda>args. Inr (PyArray \<lparr>array_dtype = Float, cells = [Num 1, Num 2, Num 3]\<rparr>))"

definition rate_formula :: simple_formula where
  "rate_formula =
     example_simple [] (\<lambda>args. Inr (PyArray \<lparr>array_dtype = Float, cells = [Num 1, NaN]\<rparr>))"

definition bonus_formula :: simple_formula where
  "bonus_formula = example_simple [] (\<lambda>args. Inr PyNone)"

definition example_names :: "string list" where
  "example_names =
     [''salary'', ''tax'', ''age'', ''rate'', ''a'', ''b'', ''bonus'', ''income'', ''income'']"

definition example_formulas :: "formula list" where
  "example_formulas =
     [SimpleFormula salary_formula, SimpleFormula tax_formula, SimpleFormula age_formula,
      SimpleFormula rate_formula,
      SimpleFormula (example_simple [''b''] (\<lambda>args. Inr PyNone)),
      SimpleFormula (example_simple [''a''] (\<lambda>args. Inr PyNone)),
      SimpleFormula bonus_formula,
      AlternativeFormula [8],
      SimpleFormula age_formula]"

definition example_env :: simulation_env where
  "example_env =
     \<lparr>holder_column = example_column,
      holder_entity_count = (\<lambda>v. 2),
      holder_formula =
        (\<lambda>v. case map_of (zip example_names [0..<9]) v of Some f \<Rightarrow> f | None \<Rightarrow> 0),
      formula_holder = (\<lambda>f. example_names ! f),
      formula_class = (\<lambda>f. example_formulas ! f),
      simulation_debug = False,
      stop_instant = (\<lambda>p. (fst (fst (snd p)) + int (snd (snd p)) - 1, 12, 31)),
      intersection = (\<lambda>p lower upper. Some p),
      astype = (\<lambda>d a. a\<lparr>array_dtype := d\<rparr>)\<rparr>"

definition empty_state :: state where
  "empty_state = \<lparr>array_of = (\<lambda>dh. None), used_formula = (\<lambda>f. None), function_calls = []\<rparr>"

text \<open>The state a first, non-lazy computation of \<open>tax\<close> for 2014 leaves.\<close>

definition after_tax :: state where
  "after_tax = snd (snd (compute 2 example_env 1 False (Some year_2014) None empty_state))"

section \<open>Properties of the legislation patch\<close>

lemma offset_minus_day_less: "offset_minus_day x < x"
  by (cases x) auto

lemma offset_plus_day_greater: "x < offset_plus_day x"
  by (cases x) auto

lemma items_loop_append:
  "items_loop ns ne v its ins (acc @ tl_items) = acc @ items_loop ns ne v its ins tl_items"
  by (induction its arbitrary: ins tl_items) (auto split: prod.splits)

lemma items_loop_acc:
  "items_loop ns ne v its ins acc = acc @ items_loop ns ne v its ins []"
  using items_loop_append [of ns ne v its ins acc "[]"] by simp

lemma item_step_disjoint:
  "disjoint_from ns ne it \<Longrightarrow> item_step ns ne v it ins = ([it], ins)"
  by (auto simp: item_step_def disjoint_from_def)

lemma item_step_exact:
  "start it = ns \<Longrightarrow> stop it = ne \<Longrightarrow> \<not> disjoint_from ns ne it \<Longrightarrow>
   item_step ns ne v it ins = (if ins then [] else [\<lparr>start = ns, stop = ne, val = v\<rparr>], True)"
  by (auto simp: item_step_def disjoint_from_def)

lemma item_step_containment:
  "ns \<le> ne \<Longrightarrow> start it < ns \<Longrightarrow> ne < stop it \<Longrightarrow>
   item_step ns ne v it ins =
     (\<lparr>start = start it, stop = offset_minus_day ns, val = val it\<rparr> #
      (if ins then [] else [\<lparr>start = ns, stop = ne, val = v\<rparr>]) @
      [\<lparr>start = offset_plus_day ne, stop = stop it, val = val it\<rparr>], True)"
  by (auto simp: item_step_def Let_def)

lemma item_step_out:
  assumes "item_step ns ne v it ins = (out, ins')"
  shows "(\<forall>x\<in>set out. disjoint_from ns ne x \<or> x = \<lparr>start = ns, stop = ne, val = v\<rparr>)"
    and "ins \<Longrightarrow> ins'"
    and "ins \<Longrightarrow> \<forall>x\<in>set out. disjoint_from ns ne x"
    and "length (filter (\<lambda>x. \<not> disjoint_from ns ne x) out) \<le> 1"
    and "filter (\<lambda>x. \<not> disjoint_from ns ne x) out \<noteq> [] \<Longrightarrow> ins'"
  using assms offset_minus_day_less [of ns] offset_plus_day_greater [of ne]
  by (auto simp: item_step_def Let_def disjoint_from_def split: if_splits)

lemma items_loop_invariant:
  assumes "\<forall>x\<in>set acc. disjoint_from ns ne x \<or> x = \<lparr>start = ns, stop = ne, val = v\<rparr>"
    and "length (overlapping ns ne acc) \<le> 1"
    and "overlapping ns ne acc \<noteq> [] \<longrightarrow> ins"
  shows "(\<forall>x\<in>set (items_loop ns ne v its ins acc).
            disjoint_from ns ne x \<or> x = \<lparr>start = ns, stop = ne, val = v\<rparr>)
         \<and> length (overlapping ns ne (items_loop ns ne v its ins acc)) \<le> 1"
  using assms
proof (induction its arbitrary: ins acc)
  case Nil
  then show ?case by simp
next
  case (Cons it its)
  obtain out ins' where st: "item_step ns ne v it ins = (out, ins')"
    by (cases "item_step ns ne v it ins")
  note o = item_step_out [OF st]
  have a: "\<forall>x\<in>set (acc @ out). disjoint_from ns ne x \<or> x = \<lparr>start = ns, stop = ne, val = v\<rparr>"
    using Cons.prems(1) o(1) by auto
  have c: "overlapping ns ne (acc @ out) \<noteq> [] \<longrightarrow> ins'"
    using Cons.prems(3) o(2) o(5) by (auto simp: overlapping_def)
  have b: "length (overlapping ns ne (acc @ out)) \<le> 1"
  proof (cases ins)
    case True
    then have "overlapping ns ne out = []"
      using o(3) by (auto simp: overlapping_def filter_empty_conv)
    then show ?thesis using Cons.prems(2) by (simp add: overlapping_def)
  next
    case False
    then have "overlapping ns ne acc = []" using Cons.prems(3) by auto
    then show ?thesis using o(4) by (simp add: overlapping_def)
  qed
  show ?case using Cons.IH [OF a b c] st by simp
qed

lemma items_loop_fixed:
  assumes "\<forall>x\<in>set xs. disjoint_from ns ne x \<or> x = \<lparr>start = ns, stop = ne, val = v\<rparr>"
    and "length (overlapping ns ne xs) \<le> 1"
  shows "items_loop ns ne v xs False acc = acc @ xs
       \<and> items_loop ns ne v xs True acc = acc @ filter (disjoint_from ns ne) xs"
  using assms
proof (induction xs arbitrary: acc)
  case Nil
  show ?case by simp
next
  case (Cons x xs)
  have tl1: "\<forall>x\<in>set xs. disjoint_from ns ne x \<or> x = \<lparr>start = ns, stop = ne, val = v\<rparr>"
    using Cons.prems(1) by simp
  have tl2: "length (overlapping ns ne xs) \<le> 1"
    using Cons.prems(2) by (simp add: overlapping_def split: if_splits)
  note IH = Cons.IH [OF tl1 tl2]
  show ?case
  proof (cases "disjoint_from ns ne x")
    case True
    then show ?thesis using IH by (simp add: item_step_disjoint)
  next
    case False
    then have x: "x = \<lparr>start = ns, stop = ne, val = v\<rparr>" using Cons.prems(1) by auto
    have "overlapping ns ne xs = []"
      using Cons.prems(2) False by (simp add: overlapping_def)
    then have all: "filter (disjoint_from ns ne) xs = xs"
      by (simp add: overlapping_def filter_empty_conv filter_id_conv)
    have s1: "item_step ns ne v x False = ([x], True)"
      using item_step_exact [of x ns ne v False] False x by simp
    have s2: "item_step ns ne v x True = ([], True)"
      using item_step_exact [of x ns ne v True] False x by simp
    show ?thesis using IH all s1 s2 False by simp
  qed
qed

lemma offset_plus_day_least:
  "valid_instant a \<Longrightarrow> valid_instant b \<Longrightarrow> a < b \<Longrightarrow> offset_plus_day a \<le> b"
proof -
  assume va: "valid_instant a" and vb: "valid_instant b" and lt: "a < b"
  obtain y m d where a: "a = (y, m, d)" by (cases a)
  obtain y' m' d' where b: "b = (y', m', d')" by (cases b)
  consider "y < y'" | "y = y'" "m < m'" | "y = y'" "m = m'" "d < d'"
    using lt a b by (simp only: less_prod_def' fst_conv snd_conv) blast
  then show ?thesis
  proof cases
    case 1
    then show ?thesis using va vb a b by (auto simp: valid_instant_def)
  next
    case 2
    then show ?thesis using va vb a b by (auto simp: valid_instant_def)
  next
    case 3
    then show ?thesis using va vb a b by (auto simp: valid_instant_def)
  qed
qed

lemma items_loop_disjoint_prefix:
  "\<forall>x\<in>set xs. disjoint_from ns ne x \<Longrightarrow>
   items_loop ns ne v (xs @ ys) ins acc = items_loop ns ne v ys ins (acc @ xs)"
  by (induction xs arbitrary: acc) (simp_all add: item_step_disjoint)

lemma items_loop_all_disjoint:
  "\<forall>x\<in>set xs. disjoint_from ns ne x \<Longrightarrow> items_loop ns ne v xs ins acc = acc @ xs"
  using items_loop_disjoint_prefix [of xs ns ne v "[]" ins acc] by simp

subsection \<open>Containment\<close>

text \<open>
  Claim C5. An item of an ordered, non-overlapping timeline that starts strictly before
  the new interval \<open>[ns, ne]\<close> and ends strictly after it is replaced, in place, by its
  left remainder \<open>[item.start, ns - 1 day]\<close> with the old value, the new item, and its
  right remainder \<open>[ne + 1 day, item.stop]\<close> with the old value; the items before and
  after it are untouched. In particular the timeline \<open>[(2010-01-01, 2012-12-31, 10)]\<close>
  patched with \<open>(2011-01-01, 2011-12-31, 20)\<close> gives the three items
  \<open>(2010-01-01, 2010-12-31, 10)\<close>, \<open>(2011-01-01, 2011-12-31, 20)\<close>,
  \<open>(2012-01-01, 2012-12-31, 10)\<close>.
\<close>

theorem patch_containment_splits_item:
  "(sorted (map start (pre @ it # post)) \<and>
    (\<forall>x\<in>set pre. stop x < start it) \<and> (\<forall>x\<in>set post. stop it < start x) \<and>
    ns \<le> ne \<and> valid_instant ne \<and> valid_instant (stop it) \<and>
    start it < ns \<and> ne < stop it
    \<longrightarrow>
    updated_legislation_items (pre @ it # post) ns ne v =
      pre @ [\<lparr>start = start it, stop = offset_minus_day ns, val = val it\<rparr>,
             \<lparr>start = ns, stop = ne, val = v\<rparr>,
             \<lparr>start = offset_plus_day ne, stop = stop it, val = val it\<rparr>] @ post)
   \<and>
   updated_legislation_items
       [\<lparr>start = (2010, 1, 1), stop = (2012, 12, 31), val = 10 :: int\<rparr>]
       (2011, 1, 1) (2011, 12, 31) 20 =
     [\<lparr>start = (2010, 1, 1), stop = (2010, 12, 31), val = 10\<rparr>,
      \<lparr>start = (2011, 1, 1), stop = (2011, 12, 31), val = 20\<rparr>,
      \<lparr>start = (2012, 1, 1), stop = (2012, 12, 31), val = 10\<rparr>]"
proof (intro conjI impI)
  assume h: "sorted (map start (pre @ it # post)) \<and>
    (\<forall>x\<in>set pre. stop x < start it) \<and> (\<forall>x\<in>set post. stop it < start x) \<and>
    ns \<le> ne \<and> valid_instant ne \<and> valid_instant (stop it) \<and>
    start it < ns \<and> ne < stop it"
  let ?mid = "[\<lparr>start = start it, stop = offset_minus_day ns, val = val it\<rparr>,
               \<lparr>start = ns, stop = ne, val = v\<rparr>,
               \<lparr>start = offset_plus_day ne, stop = stop it, val = val it\<rparr>]"
  from h have ord: "sorted (map start (pre @ it # post))"
    and pre: "\<forall>x\<in>set pre. stop x < start it"
    and post: "\<forall>x\<in>set post. stop it < start x"
    and iv: "ns \<le> ne" "valid_instant ne" "valid_instant (stop it)"
    and c: "start it < ns" "ne < stop it"
    by blast+
  have dpre: "\<forall>x\<in>set pre. disjoint_from ns ne x"
    using pre c(1) by (auto simp: disjoint_from_def)
  have dpost: "\<forall>x\<in>set post. disjoint_from ns ne x"
    using post c(2) by (auto simp: disjoint_from_def)
  have loop: "items_loop ns ne v (pre @ it # post) False [] = pre @ ?mid @ post"
    using items_loop_disjoint_prefix [OF dpre, of v "it # post" False "[]"]
      item_step_containment [OF iv(1) c, of v False]
      items_loop_all_disjoint [OF dpost, of v True "pre @ ?mid"]
    by simp
  have le: "offset_plus_day ne \<le> stop it"
    by (rule offset_plus_day_least [OF iv(2) iv(3) c(2)])
  have "sorted (map start (pre @ ?mid @ post))"
    using ord post le c(1) iv(1) offset_plus_day_greater [of ne]
    by (auto simp: sorted_append)
  then show "updated_legislation_items (pre @ it # post) ns ne v = pre @ ?mid @ post"
    unfolding updated_legislation_items_def loop by (rule sort_key_id_if_sorted)
next
  show "updated_legislation_items
       [\<lparr>start = (2010, 1, 1), stop = (2012, 12, 31), val = 10 :: int\<rparr>]
       (2011, 1, 1) (2011, 12, 31) 20 =
     [\<lparr>start = (2010, 1, 1), stop = (2010, 12, 31), val = 10\<rparr>,
      \<lparr>start = (2011, 1, 1), stop = (2011, 12, 31), val = 20\<rparr>,
      \<lparr>start = (2012, 1, 1), stop = (2012, 12, 31), val = 10\<rparr>]"
    by (simp add: updated_legislation_items_def item_step_def month_last_day_def
        is_leap_year_def)
qed

theorem patch_containment_splits_item_witness:
  "updated_legislation_items
     [\<lparr>start = (2008, 1, 1), stop = (2009, 12, 31), val = 7 :: int\<rparr>,
      \<lparr>start = (2010, 1, 1), stop = (2012, 12, 31), val = 10\<rparr>,
      \<lparr>start = (2013, 1, 1), stop = (2013, 6, 30), val = 12\<rparr>]
     (2011, 2, 1) (2012, 2, 29) 20 =
   [\<lparr>start = (2008, 1, 1), stop = (2009, 12, 31), val = 7\<rparr>,
    \<lparr>start = (2010, 1, 1), stop = (2011, 1, 31), val = 10\<rparr>,
    \<lparr>start = (2011, 2, 1), stop = (2012, 2, 29), val = 20\<rparr>,
    \<lparr>start = (2012, 3, 1), stop = (2012, 12, 31), val = 10\<rparr>,
    \<lparr>start = (2013, 1, 1), stop = (2013, 6, 30), val = 12\<rparr>]"
  using patch_containment_splits_item
    [of "[\<lparr>start = (2008, 1, 1), stop = (2009, 12, 31), val = 7 :: int\<rparr>]"
        "\<lparr>start = (2010, 1, 1), stop = (2012, 12, 31), val = 10\<rparr>"
        "[\<lparr>start = (2013, 1, 1), stop = (2013, 6, 30), val = 12\<rparr>]"
        "(2011, 2, 1)" "(2012, 2, 29)" 20]
  by (simp add: valid_instant_def month_last_day_def is_leap_year_def)

subsection \<open>Idempotence\<close>

text \<open>
  Claim C6. Patching a second time with the same start, stop and value gives the list the
  first patch gave. This holds for every list of items, ordered and non-overlapping or
  not.
\<close>

theorem patch_idempotent:
  "updated_legislation_items (updated_legislation_items xs ns ne v) ns ne v
     = updated_legislation_items xs ns ne v"
proof -
  let ?L = "items_loop ns ne v xs False []"
  let ?R = "sort_key start ?L"
  have inv: "(\<forall>x\<in>set ?L. disjoint_from ns ne x \<or> x = \<lparr>start = ns, stop = ne, val = v\<rparr>)
         \<and> length (overlapping ns ne ?L) \<le> 1"
    by (rule items_loop_invariant) (simp_all add: overlapping_def)
  have r1: "\<forall>x\<in>set ?R. disjoint_from ns ne x \<or> x = \<lparr>start = ns, stop = ne, val = v\<rparr>"
    using inv by simp
  have "overlapping ns ne ?R = sort_key start (overlapping ns ne ?L)"
    by (simp add: overlapping_def filter_sort)
  then have r2: "length (overlapping ns ne ?R) \<le> 1"
    using inv by simp
  have "items_loop ns ne v ?R False [] = ?R"
    using items_loop_fixed [OF r1 r2, of "[]"] by simp
  moreover have "sort_key start ?R = ?R"
    by (rule sort_key_id_if_sorted) simp
  ultimately show ?thesis by (simp add: updated_legislation_items_def)
qed

theorem patch_idempotent_witness:
  "updated_legislation_items
     (updated_legislation_items
        [\<lparr>start = (2010, 1, 1), stop = (2012, 12, 31), val = 10 :: int\<rparr>]
        (2011, 1, 1) (2011, 12, 31) 20)
     (2011, 1, 1) (2011, 12, 31) 20 =
   [\<lparr>start = (2010, 1, 1), stop = (2010, 12, 31), val = 10\<rparr>,
    \<lparr>start = (2011, 1, 1), stop = (2011, 12, 31), val = 20\<rparr>,
    \<lparr>start = (2012, 1, 1), stop = (2012, 12, 31), val = 10\<rparr>]"
proof -
  have "updated_legislation_items
        [\<lparr>start = (2010, 1, 1), stop = (2012, 12, 31), val = 10 :: int\<rparr>]
        (2011, 1, 1) (2011, 12, 31) 20 =
   [\<lparr>start = (2010, 1, 1), stop = (2010, 12, 31), val = 10\<rparr>,
    \<lparr>start = (2011, 1, 1), stop = (2011, 12, 31), val = 20\<rparr>,
    \<lparr>start = (2012, 1, 1), stop = (2012, 12, 31), val = 10\<rparr>]"
    by (simp add: updated_legislation_items_def item_step_def month_last_day_def
        is_leap_year_def)
  then show ?thesis
    using patch_idempotent
      [of "[\<lparr>start = (2010, 1, 1), stop = (2012, 12, 31), val = 10 :: int\<rparr>]"
          "(2011, 1, 1)" "(2011, 12, 31)" 20]
    by simp
qed

subsection \<open>Where the patch departs from its documentation\<close>

text \<open>
  Claim C3. The claim asks that the returned list contain the new item exactly once, also
  when no existing item overlaps the new interval and when the list is empty (the
  docstring: ``if the period matches no existing item, the new item is yielded as-is'').
  The flag \<open>inserted\<close> is only ever set inside the loop, by an overlapping item, and
  nothing is appended after the loop: on an empty list the function returns the empty
  list, and on a list whose only item lies before the new interval it returns that item
  alone.
\<close>

theorem patch_drops_unmatched_new_item:
  "updated_legislation_items [] ns ne v = [] \<and>
   updated_legislation_items
       [\<lparr>start = (2009, 1, 1), stop = (2009, 12, 31), val = 10 :: int\<rparr>]
       (2011, 1, 1) (2011, 12, 31) 20 =
     [\<lparr>start = (2009, 1, 1), stop = (2009, 12, 31), val = 10\<rparr>]"
  by (simp add: updated_legislation_items_def item_step_def)

text \<open>
  Claim C4. The claim asks that an item starting inside the new interval and ending
  after it leave the new item plus the right remainder \<open>[ne + 1 day, item.stop]\<close>, and
  that an item lying inside the new interval be dropped. The test of the branch commented
  ``right edge overlapping are corrected'' reads \<open>item_stop < new_item_stop\<close> where the
  remainder it builds needs \<open>item_stop > new_item_stop\<close>. So an item that overlaps on the
  right matches no branch and vanishes without the new item being emitted, and an item
  strictly inside the new interval emits the new item followed by a ``remainder'' whose
  start lies after its stop.
\<close>

theorem patch_right_overlap_lost:
  "updated_legislation_items
       [\<lparr>start = (2011, 6, 1), stop = (2012, 12, 31), val = 10 :: int\<rparr>]
       (2011, 1, 1) (2011, 12, 31) 20 = [] \<and>
   updated_legislation_items
       [\<lparr>start = (2011, 3, 1), stop = (2011, 6, 30), val = 10 :: int\<rparr>]
       (2011, 1, 1) (2011, 12, 31) 20 =
     [\<lparr>start = (2011, 1, 1), stop = (2011, 12, 31), val = 20\<rparr>,
      \<lparr>start = (2012, 1, 1), stop = (2011, 6, 30), val = 10\<rparr>]"
  by (simp add: updated_legislation_items_def item_step_def month_last_day_def
      is_leap_year_def)

section \<open>Properties of the role scatter and gather\<close>

lemma masked_map:
  "length t = length idx \<Longrightarrow> length idx = length m \<Longrightarrow>
   masked (map (\<lambda>(t, i, b). if b then f i else t) (zip t (zip idx m))) m
     = map f (masked idx m)"
  by (induction t idx m rule: list_induct3) (auto simp: masked_def)

lemma put_mask_map:
  "length t = length idx \<Longrightarrow> length idx = length m \<Longrightarrow>
   put_mask t m (map f (masked idx m)) =
     map (\<lambda>(t, i, b). if b then f i else t) (zip t (zip idx m))"
  by (induction t idx m rule: list_induct3) (auto simp: masked_def)

lemma length_masked:
  "length a = length m \<Longrightarrow> length (masked a m) = length (filter id m)"
  by (induction a m rule: list_induct2) (auto simp: masked_def)

lemma set_masked:
  "length a = length m \<Longrightarrow>
   x \<in> set (masked a m) \<longleftrightarrow> (\<exists>i<length a. m ! i \<and> a ! i = x)"
  by (force simp: set_zip masked_def)

lemma length_put_seq: "length (put_seq t idx vs) = length t"
  by (induction t idx vs rule: put_seq.induct) auto

lemma put_seq_untouched:
  "\<forall>i\<in>set idx. 0 \<le> i \<and> i < int (length t) \<Longrightarrow> int g \<notin> set idx \<Longrightarrow>
   put_seq t idx vs ! g = t ! g"
proof (induction t idx vs rule: put_seq.induct)
  case (1 target i idx v vs)
  then have "g \<noteq> norm_index (length target) i"
    by (auto simp: norm_index_def)
  then show ?case using 1 by simp
qed auto

lemma put_seq_map:
  "\<forall>i\<in>set idx. 0 \<le> i \<and> i < int (length t) \<Longrightarrow> g < length t \<Longrightarrow>
   put_seq t idx (map F idx) ! g = (if int g \<in> set idx then F (int g) else t ! g)"
proof (induction idx arbitrary: t)
  case Nil
  then show ?case by simp
next
  case (Cons i idx)
  have n: "norm_index (length t) i = nat i" using Cons.prems by (simp add: norm_index_def)
  have "put_seq (t[nat i := F i]) idx (map F idx) ! g =
          (if int g \<in> set idx then F (int g) else (t[nat i := F i]) ! g)"
    using Cons.IH [of "t[nat i := F i]"] Cons.prems by simp
  then show ?case using Cons.prems n by (auto simp: nth_list_update)
qed

lemma masked_rows:
  assumes len: "length (index_for_person e) = length (role_for_person e)"
  shows "x \<in> set (masked (index_for_person e) (boolean_filter e role)) \<longleftrightarrow>
         (\<exists>i<length (role_for_person e). role_for_person e ! i = role \<and> index_for_person e ! i = x)"
  using set_masked [of "index_for_person e" "boolean_filter e role" x] len
  by (auto simp: boolean_filter_def)

lemma rows_bounds:
  assumes len: "length (index_for_person e) = length (role_for_person e)"
    and rng: "rows_in_range e role"
    and x: "x \<in> set (masked (index_for_person e) (boolean_filter e role))"
  shows "0 \<le> x \<and> x < int (count e)"
proof -
  obtain i where "i < length (role_for_person e)" "role_for_person e ! i = role"
      "index_for_person e ! i = x"
    using masked_rows [OF len, of x role] x by blast
  then show ?thesis using rng by (auto simp: rows_in_range_def)
qed

lemma cast_role_replicate:
  assumes len: "length (index_for_person e) = n" "length (role_for_person e) = n"
    and G: "length G = count e"
    and rng: "rows_in_range e role"
  shows "cast_role e G (replicate n d) role =
           Inr (map (\<lambda>(t, i, b). if b then G ! nat i else t)
                  (zip (replicate n d) (zip (index_for_person e) (boolean_filter e role))))"
proof -
  let ?m = "boolean_filter e role"
  let ?rows = "masked (index_for_person e) ?m"
  have lm: "length ?m = n" using len by (simp add: boolean_filter_def)
  have r: "\<forall>x\<in>set ?rows. 0 \<le> x \<and> x < int (count e)"
    using rows_bounds [of e role] len rng by simp
  then have ok: "list_all (index_ok (length G)) ?rows"
    using G by (auto simp: list_all_iff index_ok_def)
  have tk: "map (\<lambda>i. G ! norm_index (length G) i) ?rows = map (\<lambda>i. G ! nat i) ?rows"
    using r by (auto simp: norm_index_def)
  have lr: "length ?rows = length (filter id ?m)"
    using length_masked [of "index_for_person e" ?m] len lm by simp
  show ?thesis
    using put_mask_map [of "replicate n d" "index_for_person e" ?m "\<lambda>i. G ! nat i"]
      len lm ok lr
    by (simp add: cast_role_def np_mask_def np_take_def np_put_mask_def tk)
qed

lemma gather_role_length:
  "gather_role e array d role = Inr t \<Longrightarrow> length t = count e"
  by (auto simp: gather_role_def np_mask_def np_put_def length_put_seq
      split: if_splits sum.splits)

lemma gather_role_ok:
  assumes len: "length (index_for_person e) = length array"
       "length (role_for_person e) = length array"
    and rng: "rows_in_range e role"
  shows "gather_role e array d role =
     Inr (put_seq (replicate (count e) d)
            (masked (index_for_person e) (boolean_filter e role))
            (masked array (boolean_filter e role)))"
proof -
  let ?m = "boolean_filter e role"
  let ?rows = "masked (index_for_person e) ?m"
  have lm: "length ?m = length array" using len by (simp add: boolean_filter_def)
  have r: "\<forall>x\<in>set ?rows. 0 \<le> x \<and> x < int (count e)"
    using rows_bounds [of e role] len rng by simp
  then have ok: "list_all (index_ok (count e)) ?rows"
    by (auto simp: list_all_iff index_ok_def)
  have "length ?rows = length (masked array ?m)"
    using length_masked [of "index_for_person e" ?m] length_masked [of array ?m] len lm
    by simp
  then show ?thesis using ok len lm
    by (simp add: gather_role_def np_mask_def np_put_def)
qed

lemma gather_role_default:
  assumes len: "length (index_for_person e) = length array"
       "length (role_for_person e) = length array"
    and rng: "rows_in_range e role"
    and g: "g < count e"
    and none: "\<not> (\<exists>i<length array. role_for_person e ! i = role \<and> index_for_person e ! i = int g)"
  shows "\<exists>t. gather_role e array d role = Inr t \<and> t ! g = d"
proof -
  let ?m = "boolean_filter e role"
  let ?rows = "masked (index_for_person e) ?m"
  have r: "\<forall>x\<in>set ?rows. 0 \<le> x \<and> x < int (length (replicate (count e) d))"
    using rows_bounds [of e role] len rng by simp
  have "int g \<notin> set ?rows"
    using masked_rows [of e "int g" role] len none by auto
  then show ?thesis
    using gather_role_ok [OF len rng, of d] put_seq_untouched [OF r, of g] g by simp
qed

lemma round_trip_core:
  assumes len: "length (index_for_person e) = n" "length (role_for_person e) = n"
    and G: "length G = count e"
    and rng: "rows_in_range e role"
    and cover: "\<forall>g<count e. \<exists>i<n. role_for_person e ! i = role \<and> index_for_person e ! i = int g"
    and P: "P = map (\<lambda>(t, i, b). if b then G ! nat i else t)
                  (zip (replicate n d) (zip (index_for_person e) (boolean_filter e role)))"
  shows "gather_role e P d role = Inr G"
proof -
  let ?m = "boolean_filter e role"
  let ?rows = "masked (index_for_person e) ?m"
  have lm: "length ?m = n" using len by (simp add: boolean_filter_def)
  have lP: "length P = n" using P len lm by simp
  have vals: "masked P ?m = map (\<lambda>i. G ! nat i) ?rows"
    unfolding P using masked_map [of "replicate n d" "index_for_person e" ?m "\<lambda>i. G ! nat i"] len lm
    by simp
  have r: "\<forall>x\<in>set ?rows. 0 \<le> x \<and> x < int (length (replicate (count e) d))"
    using rows_bounds [of e role] len rng by simp
  have eq: "gather_role e P d role =
     Inr (put_seq (replicate (count e) d) ?rows (map (\<lambda>i. G ! nat i) ?rows))"
    using gather_role_ok [of e P role d] len lP rng vals by simp
  have "put_seq (replicate (count e) d) ?rows (map (\<lambda>i. G ! nat i) ?rows) = G"
  proof (rule nth_equalityI)
    show "length (put_seq (replicate (count e) d) ?rows (map (\<lambda>i. G ! nat i) ?rows)) = length G"
      using G by (simp add: length_put_seq)
  next
    fix g assume "g < length (put_seq (replicate (count e) d) ?rows (map (\<lambda>i. G ! nat i) ?rows))"
    then have g: "g < count e" by (simp add: length_put_seq)
    then have "int g \<in> set ?rows"
      using masked_rows [of e "int g" role] len cover by auto
    then show "put_seq (replicate (count e) d) ?rows (map (\<lambda>i. G ! nat i) ?rows) ! g = G ! g"
      using put_seq_map [OF r, of g "\<lambda>i. G ! nat i"] g by simp
  qed
  then show ?thesis using eq by simp
qed

lemma set_range_upto: "set (range_upto n) = {r. 0 \<le> r \<and> r < n}"
proof -
  have "\<And>r. 0 \<le> r \<Longrightarrow> r < n \<Longrightarrow> r \<in> int ` {0..<nat n}"
  proof -
    fix r :: int assume "0 \<le> r" "r < n"
    then have "nat r \<in> {0..<nat n}" "int (nat r) = r" by auto
    then show "r \<in> int ` {0..<nat n}" by (metis imageI)
  qed
  then show ?thesis by (auto simp: range_upto_def)
qed

lemma card_range_upto: "card {r::int. 0 \<le> r \<and> r < n} = nat n"
proof -
  have "{r::int. 0 \<le> r \<and> r < n} = {0..<n}" by auto
  then show ?thesis by simp
qed

lemma split_loop_result:
  assumes len: "length (index_for_person e) = length array"
       "length (role_for_person e) = length array"
    and rng: "\<forall>r\<in>set rs. rows_in_range e r"
  shows "\<exists>m. split_loop e array d rs m0 = Inr m \<and>
             (\<forall>r. m r = (if r \<in> set rs
                          then Some (put_seq (replicate (count e) d)
                                 (masked (index_for_person e) (boolean_filter e r))
                                 (masked array (boolean_filter e r)))
                          else m0 r))"
  using rng
proof (induction rs arbitrary: m0)
  case Nil
  then show ?case by simp
next
  case (Cons r rs)
  let ?t = "\<lambda>r. put_seq (replicate (count e) d)
              (masked (index_for_person e) (boolean_filter e r))
              (masked array (boolean_filter e r))"
  have g: "gather_role e array d r = Inr (?t r)"
    using gather_role_ok [OF len, of r d] Cons.prems by simp
  have tl_rng: "\<forall>r\<in>set rs. rows_in_range e r" using Cons.prems by simp
  from Cons.IH [OF tl_rng, of "m0(r \<mapsto> ?t r)"]
  obtain m where m: "split_loop e array d rs (m0(r \<mapsto> ?t r)) = Inr m"
    and mr: "\<forall>r'. m r' = (if r' \<in> set rs then Some (?t r') else (m0(r \<mapsto> ?t r)) r')"
    by blast
  have "split_loop e array d (r # rs) m0 = Inr m" using g m by simp
  moreover have "\<forall>r'. m r' = (if r' \<in> set (r # rs) then Some (?t r') else m0 r')"
    using mr by auto
  ultimately show ?case by blast
qed

lemma put_seq_rows_default:
  assumes len: "length (index_for_person e) = length array"
       "length (role_for_person e) = length array"
    and rng: "rows_in_range e role"
    and g: "g < count e"
    and none: "\<not> (\<exists>i<length array. role_for_person e ! i = role \<and> index_for_person e ! i = int g)"
  shows "put_seq (replicate (count e) d)
           (masked (index_for_person e) (boolean_filter e role))
           (masked array (boolean_filter e role)) ! g = d"
  using gather_role_default [OF len rng g none, of d] gather_role_ok [OF len rng, of d]
  by simp

lemma less_five_cases: "(i::nat) < 5 \<longleftrightarrow> i = 0 \<or> i = 1 \<or> i = 2 \<or> i = 3 \<or> i = 4" by auto
lemma less_two_cases: "(g::nat) < 2 \<longleftrightarrow> g = 0 \<or> g = 1" by auto

lemma family_rows_in_range: "\<forall>i<persons_count family_simulation. role_for_person households ! i = 0 \<longrightarrow>
               0 \<le> index_for_person households ! i \<and>
               index_for_person households ! i < int (count households)"
  by (simp add: family_simulation_def households_def less_five_cases)

lemma family_one_reference_person: "\<forall>g<count households. \<exists>!i. i < persons_count family_simulation \<and>
               role_for_person households ! i = 0 \<and> index_for_person households ! i = int g"
proof (intro allI impI)
  fix g assume "g < count households"
  then consider "g = 0" | "g = 1" by (auto simp: households_def less_two_cases)
  then show "\<exists>!i. i < persons_count family_simulation \<and>
               role_for_person households ! i = 0 \<and> index_for_person households ! i = int g"
  proof cases
    case 1
    show ?thesis
    proof (rule ex1I [of _ 0])
      show "0 < persons_count family_simulation \<and>
               role_for_person households ! 0 = 0 \<and> index_for_person households ! 0 = int g"
        using 1 by (simp add: family_simulation_def households_def)
    next
      fix i assume "i < persons_count family_simulation \<and>
               role_for_person households ! i = 0 \<and> index_for_person households ! i = int g"
      then show "i = 0" using 1
        by (simp add: family_simulation_def households_def less_five_cases) (elim conjE disjE; simp)
    qed
  next
    case 2
    show ?thesis
    proof (rule ex1I [of _ 1])
      show "1 < persons_count family_simulation \<and>
               role_for_person households ! 1 = 0 \<and> index_for_person households ! 1 = int g"
        using 2 by (simp add: family_simulation_def households_def)
    next
      fix i assume "i < persons_count family_simulation \<and>
               role_for_person households ! i = 0 \<and> index_for_person households ! i = int g"
      then show "i = 1" using 2
        by (simp add: family_simulation_def households_def less_five_cases) (elim conjE disjE; simp)
    qed
  qed
qed


subsection \<open>Scatter, then gather\<close>

text \<open>
  Claim C9. When every group holds exactly one person with role \<open>R\<close> (and the persons
  with role \<open>R\<close> sit in rows of the group entity), casting a group array \<open>G\<close> to the
  persons with role \<open>R\<close> and filtering that role back gives \<open>G\<close>, whatever the
  default: both when \<open>G\<close> comes as a holder of the formula's own entity and no entity is
  named, and when \<open>G\<close> is a bare array and the entity is named by its key.
\<close>

theorem scatter_gather_round_trip:
  fixes G :: "'a::zero list"
  assumes np: "\<not> is_persons_entity e"
    and G: "length G = count e"
    and len: "length (index_for_person e) = persons_count sim"
       "length (role_for_person e) = persons_count sim"
    and rng: "\<forall>i<persons_count sim. role_for_person e ! i = R \<longrightarrow>
               0 \<le> index_for_person e ! i \<and> index_for_person e ! i < int (count e)"
    and one: "\<forall>g<count e. \<exists>!i. i < persons_count sim \<and> role_for_person e ! i = R \<and>
               index_for_person e ! i = int g"
  shows "(case cast_from_entity_to_role sim (Holder e G default_of_column) (Some d) None (Some R) of
            Inl err \<Rightarrow> Inl err
          | Inr P \<Rightarrow> filter_role sim e (Ndarray P) (Some d) None (Some R)) = Inr G
       \<and> (entity_by_key_singular sim k = Some e \<longrightarrow>
           (case cast_from_entity_to_role sim (Ndarray G) (Some d) (Some k) (Some R) of
              Inl err \<Rightarrow> Inl err
            | Inr P \<Rightarrow> filter_role sim holder_entity (Ndarray P) (Some d) (Some k) (Some R))
             = Inr G)"
proof -
  let ?n = "persons_count sim"
  let ?P = "map (\<lambda>(t, i, b). if b then G ! nat i else t)
               (zip (replicate ?n d) (zip (index_for_person e) (boolean_filter e R)))"
  have rr: "rows_in_range e R" using rng len by (simp add: rows_in_range_def)
  have cast: "cast_role e G (replicate ?n d) R = Inr ?P"
    by (rule cast_role_replicate [OF len G rr])
  have lP: "length ?P = ?n" using len by (simp add: boolean_filter_def)
  have cover: "\<forall>g<count e. \<exists>i<?n. role_for_person e ! i = R \<and> index_for_person e ! i = int g"
    using one by blast
  have gathered: "gather_role e ?P d R = Inr G"
    by (rule round_trip_core [OF len G rr cover refl])
  show ?thesis
    using np G cast lP gathered
    by (simp add: cast_from_entity_to_role_def cast_from_entity_to_roles_def filter_role_def
        resolve_persons_array_def)
qed

theorem scatter_gather_round_trip_witness:
  "(case cast_from_entity_to_role family_simulation (Ndarray [10, 20 :: int]) (Some 7)
           (Some ''household'') (Some 0) of
      Inl err \<Rightarrow> Inl err
    | Inr P \<Rightarrow> filter_role family_simulation households (Ndarray P) (Some 7)
                 (Some ''household'') (Some 0)) = Inr [10, 20]"
proof -
  have np: "\<not> is_persons_entity households" by (simp add: households_def)
  have G: "length [10, 20 :: int] = count households" by (simp add: households_def)
  have len: "length (index_for_person households) = persons_count family_simulation"
      "length (role_for_person households) = persons_count family_simulation"
    by (simp_all add: households_def family_simulation_def)
  have k: "entity_by_key_singular family_simulation ''household'' = Some households"
    by (simp add: family_simulation_def)
  show ?thesis
    using scatter_gather_round_trip [OF np G len family_rows_in_range family_one_reference_person,
        where d = 7 and k = "''household''" and holder_entity = households] k
    by blast
qed

subsection \<open>The roles of \<open>split_by_roles\<close>\<close>

text \<open>
  Claim C10. Called without roles, \<open>split_by_roles\<close> returns a dictionary whose keys are
  exactly the role codes \<open>0 .. max(entity.roles_count, 11) - 1\<close>, hence at least eleven
  of them; each array has \<open>entity.count\<close> cells, and a cell of a group in which no
  person holds the role has the default.
\<close>

theorem split_by_roles_default_roles:
  fixes array :: "'a::zero list"
  assumes np: "\<not> is_persons_entity e"
    and arr: "length array = persons_count sim"
    and len: "length (index_for_person e) = persons_count sim"
       "length (role_for_person e) = persons_count sim"
    and rng: "\<forall>i<persons_count sim.
               0 \<le> index_for_person e ! i \<and> index_for_person e ! i < int (count e)"
  shows "\<exists>m. split_by_roles sim e (Ndarray array) default_value None None = Inr m \<and>
           dom m = {r. 0 \<le> r \<and> r < max (roles_count e) 11} \<and>
           11 \<le> card (dom m) \<and>
           (\<forall>r t. m r = Some t \<longrightarrow>
              length t = count e \<and>
              (\<forall>g<count e.
                 (\<forall>i<persons_count sim.
                    \<not> (role_for_person e ! i = r \<and> index_for_person e ! i = int g)) \<longrightarrow>
                 t ! g = case_option 0 id default_value))"
proof -
  let ?d = "case_option 0 id default_value"
  let ?rs = "range_upto (max (roles_count e) 11)"
  let ?t = "\<lambda>r. put_seq (replicate (count e) ?d)
                 (masked (index_for_person e) (boolean_filter e r))
                 (masked array (boolean_filter e r))"
  have len': "length (index_for_person e) = length array"
       "length (role_for_person e) = length array"
    using len arr by simp_all
  have rr: "\<And>r. rows_in_range e r"
    using rng len by (simp add: rows_in_range_def)
  then have rrs: "\<forall>r\<in>set ?rs. rows_in_range e r" by simp
  obtain m where m: "split_loop e array ?d ?rs Map.empty = Inr m"
    and mr: "\<forall>r. m r = (if r \<in> set ?rs then Some (?t r) else None)"
    using split_loop_result [OF len' rrs, of ?d Map.empty] by auto
  have run: "split_by_roles sim e (Ndarray array) default_value None None = Inr m"
    using np arr m by (simp add: split_by_roles_def resolve_persons_array_def)
  have d: "dom m = {r. 0 \<le> r \<and> r < max (roles_count e) 11}"
    using mr by (auto simp: dom_def set_range_upto)
  have c: "11 \<le> card (dom m)"
    unfolding d card_range_upto by simp
  have cells: "\<forall>r t. m r = Some t \<longrightarrow>
              length t = count e \<and>
              (\<forall>g<count e.
                 (\<forall>i<persons_count sim.
                    \<not> (role_for_person e ! i = r \<and> index_for_person e ! i = int g)) \<longrightarrow>
                 t ! g = ?d)"
  proof (intro allI impI conjI)
    fix r t assume "m r = Some t"
    then have t: "t = ?t r" using mr by (auto split: if_splits)
    show "length t = count e" unfolding t by (simp add: length_put_seq)
    fix g assume g: "g < count e"
      and none: "\<forall>i<persons_count sim.
                    \<not> (role_for_person e ! i = r \<and> index_for_person e ! i = int g)"
    have "\<not> (\<exists>i<length array. role_for_person e ! i = r \<and> index_for_person e ! i = int g)"
      using none arr by auto
    then show "t ! g = ?d"
      unfolding t using put_seq_rows_default [OF len' rr g] by blast
  qed
  show ?thesis using run d c cells by blast
qed

theorem split_by_roles_default_roles_witness:
  "\<exists>m. split_by_roles family_simulation households (Ndarray [1, 2, 3, 4, 5 :: int]) (Some 7)
          None None = Inr m \<and>
       dom m = {r. 0 \<le> r \<and> r < 11} \<and>
       (\<exists>t. m 2 = Some t \<and> length t = 2 \<and> t ! 0 = 7)"
proof -
  have np: "\<not> is_persons_entity households" by (simp add: households_def)
  have arr: "length [1, 2, 3, 4, 5 :: int] = persons_count family_simulation"
    by (simp add: family_simulation_def)
  have len: "length (index_for_person households) = persons_count family_simulation"
      "length (role_for_person households) = persons_count family_simulation"
    by (simp_all add: households_def family_simulation_def)
  have rng: "\<forall>i<persons_count family_simulation.
       0 \<le> index_for_person households ! i \<and>
       index_for_person households ! i < int (count households)"
    by (simp add: family_simulation_def households_def less_five_cases)
  obtain m where
    run: "split_by_roles family_simulation households (Ndarray [1, 2, 3, 4, 5 :: int]) (Some 7)
          None None = Inr m"
    and d: "dom m = {r. 0 \<le> r \<and> r < max (roles_count households) 11}"
    and cells: "\<forall>r t. m r = Some t \<longrightarrow>
              length t = count households \<and>
              (\<forall>g<count households.
                 (\<forall>i<persons_count family_simulation.
                    \<not> (role_for_person households ! i = r \<and>
                        index_for_person households ! i = int g)) \<longrightarrow>
                 t ! g = case_option 0 id (Some 7))"
    using split_by_roles_default_roles [OF np arr len rng, of "Some 7"] by blast
  have d': "dom m = {r. 0 \<le> r \<and> r < 11}" using d by (simp add: households_def)
  then have "2 \<in> dom m" by simp
  then obtain t where t: "m 2 = Some t" by blast
  have free: "\<forall>i<persons_count family_simulation.
                    \<not> (role_for_person households ! i = 2 \<and>
                        index_for_person households ! i = int 0)"
    by (simp add: family_simulation_def households_def less_five_cases)
  have "length t = 2 \<and> t ! 0 = 7"
    using cells [rule_format, OF t] free by (simp add: households_def)
  then show ?thesis using run d' t by blast
qed

section \<open>Properties of the formula engine\<close>

subsection \<open>Dependency cycles\<close>

lemma open_compute_cycle:
  assumes "req (period_key env f p) = Some S" "f \<in> S"
  shows "open_compute env f lazy (Some p) (Some req) =
           (if lazy then Leave (Return (at_period env (formula_holder env f) (Some p))) req
            else Leave (Raise (AssertionError
                   (InfiniteLoop (column_name (holder_column env (formula_holder env f)))
                      (requested_names env S)))) req)"
  using assms by (simp add: open_compute_def period_key_def Let_def)

lemma compute_leave:
  assumes "open_compute env f lazy period req = Leave out req'"
  shows "compute (Suc n) env f lazy period req st = (out, req', st)"
  using assms
  by (cases "formula_class env f")
     (simp_all add: SimpleFormula_compute_def AlternativeFormula_compute_def
        DatedFormula_compute_def SelectFormula_compute_def)

text \<open>
  Claim C2. When \<open>compute\<close> is entered for a formula that is already in the in-progress
  set of the period key (the requested period, or \<open>None\<close> for a period-invariant
  variable), then in lazy mode it returns the dated holder of the requested period, and
  otherwise it fails with the assertion ``Infinite loop in formula ...'' that names the
  column being computed and the columns of all formulas in progress for the key, among
  them the column itself. Both happen in the opening of the method, for each of the four
  classes, whatever the depth allowed: nothing is computed, the holders and the
  dictionary are as before.
\<close>

theorem cycle_detected:
  "req (period_key env f p) = Some S \<and> f \<in> S \<longrightarrow>
     compute (Suc n) env f True (Some p) (Some req) st =
       (Return (at_period env (formula_holder env f) (Some p)), req, st)
     \<and> compute (Suc n) env f False (Some p) (Some req) st =
       (Raise (AssertionError
                (InfiniteLoop (column_name (holder_column env (formula_holder env f)))
                   (requested_names env S))), req, st)
     \<and> column_name (holder_column env (formula_holder env f)) \<in> requested_names env S"
proof (intro impI conjI)
  assume h: "req (period_key env f p) = Some S \<and> f \<in> S"
  then have S: "req (period_key env f p) = Some S" and f: "f \<in> S" by simp_all
  show "compute (Suc n) env f True (Some p) (Some req) st =
       (Return (at_period env (formula_holder env f) (Some p)), req, st)"
    by (rule compute_leave) (simp add: open_compute_cycle [of req env f p S, OF S f])
  show "compute (Suc n) env f False (Some p) (Some req) st =
       (Raise (AssertionError
                (InfiniteLoop (column_name (holder_column env (formula_holder env f)))
                   (requested_names env S))), req, st)"
    by (rule compute_leave) (simp add: open_compute_cycle [of req env f p S, OF S f])
  show "column_name (holder_column env (formula_holder env f)) \<in> requested_names env S"
    using f by (auto simp: requested_names_def)
qed

subsection \<open>The in-progress marks\<close>

lemma restoresD:
  "restores rec \<Longrightarrow> rec f lazy period (Some req) st = (Return dh, req', st') \<Longrightarrow>
   in_progress req' = in_progress req"
  unfolding restores_def by blast

lemma holder_compute_restores:
  assumes "restores rec"
    and "holder_compute rec env v lazy period req st = (Return dh, req', st')"
  shows "in_progress req' = in_progress req"
  using assms
  by (auto simp: holder_compute_def Let_def split: option.splits dest: restoresD)

lemma compute_variables_restores:
  assumes "restores rec"
    and "compute_variables rec env cn s lazy op names args req st = (res, req', st')"
    and "res = Missing \<or> (\<exists>a. res = Resolved a)"
  shows "in_progress req' = in_progress req"
  using assms(2,3)
proof (induction names arbitrary: args req st)
  case Nil
  then show ?case by auto
next
  case (Cons name names)
  obtain out r1 s1 where hc:
    "holder_compute rec env (clean_variable_name name) lazy (get_variable_period s op name) req st
       = (out, r1, s1)"
    by (cases "holder_compute rec env (clean_variable_name name) lazy
                 (get_variable_period s op name) req st")
  show ?case
  proof (cases out)
    case (Return vdh)
    have r1: "in_progress r1 = in_progress req"
      using holder_compute_restores [OF assms(1)] hc Return by blast
    show ?thesis
    proof (cases "array_of s1 vdh")
      case None
      then show ?thesis using Cons.prems hc Return r1 by (auto simp: Let_def split: if_splits)
    next
      case (Some a)
      then show ?thesis
        using Cons.prems hc Return r1 Cons.IH by (auto simp: Let_def)
    qed
  next
    case (Raise e)
    then show ?thesis using Cons.prems hc by (auto simp: Let_def)
  next
    case OutOfFuel
    then show ?thesis using Cons.prems hc by (auto simp: Let_def)
  qed
qed

lemma open_compute_go_cases:
  assumes "open_compute env f lazy period (Some req) = Go p key req0"
  shows "period = Some p \<and> key = period_key env f p \<and>
         ((req key = None \<and> req0 = req(key \<mapsto> {})) \<or>
          (\<exists>S. req key = Some S \<and> f \<notin> S \<and> req0 = req))"
proof (cases period)
  case None
  then show ?thesis using assms by (simp add: open_compute_def)
next
  case (Some q)
  let ?k = "period_key env f q"
  show ?thesis
  proof (cases "req ?k")
    case None
    then have "open_compute env f lazy period (Some req) = Go q ?k (req(?k \<mapsto> {}))"
      using Some by (simp add: open_compute_def period_key_def Let_def)
    then have "p = q" "key = ?k" "req0 = req(?k \<mapsto> {})" using assms by simp_all
    then show ?thesis using Some None by simp
  next
    case (Some S)
    then have "open_compute env f lazy period (Some req) =
        (if f \<in> S
         then (if lazy then Leave (Return (at_period env (formula_holder env f) (Some q))) req
               else Leave (Raise (AssertionError
                   (InfiniteLoop (column_name (holder_column env (formula_holder env f)))
                      (requested_names env S)))) req)
         else Go q ?k req)"
      using \<open>period = Some q\<close> by (simp add: open_compute_def period_key_def Let_def)
    then have "f \<notin> S \<and> p = q \<and> key = ?k \<and> req0 = req"
      using assms by (simp split: if_splits)
    then show ?thesis using Some \<open>period = Some q\<close> by simp
  qed
qed

lemma open_compute_go:
  assumes "open_compute env f lazy period (Some req) = Go p key req0"
  shows "in_progress req0 = in_progress req" and "f \<notin> in_progress req0 key"
    and "period = Some p" and "key = period_key env f p"
proof -
  note c = open_compute_go_cases [OF assms]
  show "period = Some p" by (rule c [THEN conjunct1])
  show "key = period_key env f p" by (rule c [THEN conjunct2, THEN conjunct1])
  have d: "(req key = None \<and> req0 = req(key \<mapsto> {})) \<or>
          (\<exists>S. req key = Some S \<and> f \<notin> S \<and> req0 = req)"
    by (rule c [THEN conjunct2, THEN conjunct2])
  have both: "in_progress req0 = in_progress req \<and> f \<notin> in_progress req0 key"
  proof (rule disjE [OF d])
    assume h: "req key = None \<and> req0 = req(key \<mapsto> {})"
    have "in_progress (req(key \<mapsto> {})) k = in_progress req k" for k
    proof (cases "k = key")
      case True
      then show ?thesis using h by (simp add: in_progress_def)
    next
      case False
      then show ?thesis by (simp add: in_progress_def)
    qed
    then have "in_progress (req(key \<mapsto> {})) = in_progress req" by (rule ext)
    moreover have "f \<notin> in_progress (req(key \<mapsto> {})) key" by (simp add: in_progress_def)
    ultimately show ?thesis using h by simp
  next
    assume "\<exists>S. req key = Some S \<and> f \<notin> S \<and> req0 = req"
    then obtain S where "req key = Some S" "f \<notin> S" "req0 = req" by blast
    then show ?thesis by (simp add: in_progress_def)
  qed
  show "in_progress req0 = in_progress req" by (rule both [THEN conjunct1])
  show "f \<notin> in_progress req0 key" by (rule both [THEN conjunct2])
qed

lemma open_compute_leave_return:
  assumes "open_compute env f lazy period (Some req) = Leave (Return dh) req'"
  shows "req' = req"
proof (cases period)
  case None
  then show ?thesis using assms by (simp add: open_compute_def)
next
  case (Some q)
  then show ?thesis using assms
    by (simp add: open_compute_def Let_def split: option.splits if_splits)
qed

lemma remove_after_add:
  assumes "in_progress req' = in_progress (add_requested req0 key f)"
    and "f \<notin> in_progress req0 key"
  shows "\<exists>req''. remove_and_return req' key f dh st = (Return dh, req'', st)
           \<and> in_progress req'' = in_progress req0"
proof -
  have mem: "f \<in> in_progress req' key"
    using assms(1) by (simp add: add_requested_def in_progress_def)
  then obtain S where S: "req' key = Some S" "f \<in> S"
    by (auto simp: in_progress_def split: option.splits)
  have "in_progress (req'(key \<mapsto> S - {f})) = in_progress req0"
  proof
    fix k
    show "in_progress (req'(key \<mapsto> S - {f})) k = in_progress req0 k"
    proof (cases "k = key")
      case True
      have "in_progress req' key = insert f (in_progress req0 key)"
        using assms(1) by (simp add: add_requested_def in_progress_def)
      then show ?thesis using True S assms(2) by (auto simp: in_progress_def)
    next
      case False
      have "in_progress req' k = in_progress req0 k"
        using assms(1) False by (simp add: add_requested_def in_progress_def fun_eq_iff)
      then show ?thesis using False by (simp add: in_progress_def)
    qed
  qed
  then show ?thesis using S by (simp add: remove_and_return_def remove_requested_def)
qed

lemma remove_and_return_Return:
  assumes "remove_and_return req' key f dh st = (Return dh', req'', st')"
    and "in_progress req' = in_progress (add_requested req0 key f)"
    and "f \<notin> in_progress req0 key"
  shows "in_progress req'' = in_progress req0"
  using remove_after_add [OF assms(2,3), of dh st] assms(1) by auto

lemma call_function_restores:
  assumes "call_function env f s key op args req' st = (Return dh, req'', st')"
    and "in_progress req' = in_progress (add_requested req0 key f)"
    and "f \<notin> in_progress req0 key"
  shows "in_progress req'' = in_progress req0"
  using assms(1) remove_and_return_Return [OF _ assms(2,3)]
  by (auto simp: call_function_def Let_def split: sum.splits py_value.splits)

lemma SimpleFormula_compute_restores:
  assumes rec: "restores rec"
    and run: "SimpleFormula_compute rec env f s lazy period (Some req) st = (Return dh, req', st')"
  shows "in_progress req' = in_progress req"
proof (cases "open_compute env f lazy period (Some req)")
  case (Leave out r)
  then have "out = Return dh" "r = req'" using run by (simp_all add: SimpleFormula_compute_def)
  then show ?thesis using open_compute_leave_return [of env f lazy period req dh req'] Leave by simp
next
  case (Go p key req0)
  note g = open_compute_go [OF Go]
  let ?v = "formula_holder env f"
  let ?col = "holder_column env ?v"
  let ?op = "intersection env (get_output_period s p) (column_start ?col) (column_end ?col)"
  let ?dh = "at_period env ?v ?op"
  let ?req1 = "add_requested req0 key f"
  have checks: "fst (get_output_period s p) = formula_period_unit s"
    "fst (snd (get_output_period s p)) \<le> fst (snd p) \<and>
       fst (snd p) \<le> stop_instant env (get_output_period s p)"
    using run Go by (auto simp: SimpleFormula_compute_def Let_def split: if_splits)
  show ?thesis
  proof (cases "array_of st ?dh")
    case (Some a)
    then have "req' = req0" using run Go checks by (simp add: SimpleFormula_compute_def Let_def)
    then show ?thesis using g(1) by simp
  next
    case None
    obtain res r1 s1 where cv:
      "compute_variables rec env (column_name ?col) s lazy ?op (variables_name s) [] ?req1 st
         = (res, r1, s1)"
      by (cases "compute_variables rec env (column_name ?col) s lazy ?op (variables_name s)
                   [] ?req1 st")
    note unfold = SimpleFormula_compute_def Let_def Go checks None cv
    show ?thesis
    proof (cases res)
      case (Resolved arguments)
      have r1: "in_progress r1 = in_progress ?req1"
        using compute_variables_restores [OF rec cv] Resolved by simp
      have "(case other_arguments f s ?op arguments of
                        Inl err \<Rightarrow> (Raise err, r1, s1)
                      | Inr arguments \<Rightarrow>
                          if set (map fst arguments) \<noteq> required_parameters s
                          then (Raise (AssertionError MissingParameters), r1, s1)
                          else call_function env f s key ?op arguments r1 s1)
             = (Return dh, req', st')"
        using run Resolved by (simp add: unfold)
      then show ?thesis
        using call_function_restores [OF _ r1 g(2)] g(1)
        by (auto split: sum.splits if_splits)
    next
      case Missing
      have r1: "in_progress r1 = in_progress ?req1"
        using compute_variables_restores [OF rec cv] Missing by simp
      have "remove_and_return r1 key f ?dh s1 = (Return dh, req', st')"
        using run Missing by (simp add: unfold)
      then show ?thesis
        using remove_and_return_Return [OF _ r1 g(2)] g(1) by auto
    next
      case (Failed e)
      then show ?thesis using run by (simp add: unfold)
    next
      case Exhausted
      then show ?thesis using run by (simp add: unfold)
    qed
  qed
qed

lemma AlternativeFormula_compute_restores:
  assumes rec: "restores rec"
    and run: "AlternativeFormula_compute rec env f alts lazy period (Some req) st
                = (Return dh, req', st')"
  shows "in_progress req' = in_progress req"
proof (cases "open_compute env f lazy period (Some req)")
  case (Leave out r)
  then have "out = Return dh" "r = req'"
    using run by (simp_all add: AlternativeFormula_compute_def)
  then show ?thesis using open_compute_leave_return [of env f lazy period req dh req'] Leave by simp
next
  case (Go p key req0)
  note g = open_compute_go [OF Go]
  let ?req1 = "add_requested req0 key f"
  obtain res s1 where ta: "try_alternatives rec alts p ?req1 None st = (res, s1)"
    by (cases "try_alternatives rec alts p ?req1 None st")
  note unfold = AlternativeFormula_compute_def Let_def Go ta
  show ?thesis
  proof (cases res)
    case (Found g' dh')
    then have "remove_and_return ?req1 key f dh'
                 (s1\<lparr>used_formula := (used_formula s1)(f \<mapsto> g')\<rparr>) = (Return dh, req', st')"
      using run by (simp add: unfold)
    then show ?thesis using remove_and_return_Return [OF _ refl g(2)] g(1) by auto
  next
    case (NoneFound last_holder)
    have step: "(if lazy then
                (case last_holder of
                   None \<Rightarrow> (Raise UnboundLocalError, ?req1, s1)
                 | Some dh' \<Rightarrow> remove_and_return ?req1 key f dh' s1)
              else
                (case alts of
                   [] \<Rightarrow> (Raise IndexError, ?req1, s1)
                 | a # _ \<Rightarrow>
                     (case rec a lazy (Some p) (Some ?req1)
                             (s1\<lparr>used_formula := (used_formula s1)(f \<mapsto> a)\<rparr>) of
                        (Return dh', r2, s2) \<Rightarrow> remove_and_return r2 key f dh' s2
                      | (out, r2, s2) \<Rightarrow> (out, r2, s2)))) = (Return dh, req', st')"
      using run NoneFound by (simp add: unfold)
    show ?thesis
    proof (cases lazy)
      case True
      then have "(case last_holder of
                   None \<Rightarrow> (Raise UnboundLocalError, ?req1, s1)
                 | Some dh' \<Rightarrow> remove_and_return ?req1 key f dh' s1) = (Return dh, req', st')"
        using step by simp
      then show ?thesis
        using remove_and_return_Return [OF _ refl g(2)] g(1) by (auto split: option.splits)
    next
      case False
      show ?thesis
      proof (cases alts)
        case Nil
        then show ?thesis using step False by simp
      next
        case (Cons a rest)
        obtain out r2 s2 where rc:
          "rec a lazy (Some p) (Some ?req1) (s1\<lparr>used_formula := (used_formula s1)(f \<mapsto> a)\<rparr>)
             = (out, r2, s2)"
          by (cases "rec a lazy (Some p) (Some ?req1)
                       (s1\<lparr>used_formula := (used_formula s1)(f \<mapsto> a)\<rparr>)")
        have step': "(case out of Return dh' \<Rightarrow> remove_and_return r2 key f dh' s2
                       | _ \<Rightarrow> (out, r2, s2)) = (Return dh, req', st')"
          using step False Cons rc by (cases out) simp_all
        show ?thesis
        proof (cases out)
          case (Return dh')
          have r2: "in_progress r2 = in_progress ?req1"
            using restoresD [OF rec] rc Return by blast
          have "remove_and_return r2 key f dh' s2 = (Return dh, req', st')"
            using step' Return by simp
          then show ?thesis using remove_and_return_Return [OF _ r2 g(2)] g(1) by auto
        next
          case (Raise e)
          then show ?thesis using step' by simp
        next
          case OutOfFuel
          then show ?thesis using step' by simp
        qed
      qed
    qed
  next
    case (AlternativeFailed e)
    then show ?thesis using run by (simp add: unfold)
  next
    case AlternativeExhausted
    then show ?thesis using run by (simp add: unfold)
  qed
qed

lemma try_dated_formulas_restores:
  assumes rec: "restores rec"
    and "try_dated_formulas rec env dfs lazy p req st = (res, req', st')"
    and "(\<exists>g dh. res = DatedFound g dh) \<or> (\<exists>l. res = DatedNone l)"
  shows "in_progress req' = in_progress req"
  using assms(2,3)
proof (induction dfs)
  case Nil
  then show ?case by auto
next
  case (Cons d dfs)
  obtain g a b where d: "d = (g, a, b)" by (cases d)
  show ?case
  proof (cases "a > stop_instant env p")
    case True
    then show ?thesis using Cons.prems d by auto
  next
    case False
    show ?thesis
    proof (cases "intersection env p (Some a) (Some b)")
      case None
      then show ?thesis using Cons d False by simp
    next
      case (Some op)
      obtain out r1 s1 where rc: "rec g lazy (Some op) (Some req) st = (out, r1, s1)"
        by (cases "rec g lazy (Some op) (Some req) st")
      show ?thesis
      proof (cases out)
        case (Return dh)
        have "in_progress r1 = in_progress req" using restoresD [OF rec] rc Return by blast
        then show ?thesis using Cons.prems d False Some rc Return by (auto split: if_splits)
      next
        case (Raise e)
        then show ?thesis using Cons.prems d False Some rc by auto
      next
        case OutOfFuel
        then show ?thesis using Cons.prems d False Some rc by auto
      qed
    qed
  qed
qed

lemma DatedFormula_compute_restores:
  assumes rec: "restores rec"
    and run: "DatedFormula_compute rec env f dfs lazy period (Some req) st
                = (Return dh, req', st')"
  shows "in_progress req' = in_progress req"
proof (cases "open_compute env f lazy period (Some req)")
  case (Leave out r)
  then have "out = Return dh" "r = req'"
    using run by (simp_all add: DatedFormula_compute_def)
  then show ?thesis using open_compute_leave_return [of env f lazy period req dh req'] Leave by simp
next
  case (Go p key req0)
  note g = open_compute_go [OF Go]
  let ?req1 = "add_requested req0 key f"
  obtain res r1 s1 where td: "try_dated_formulas rec env dfs lazy p ?req1 st = (res, r1, s1)"
    by (cases "try_dated_formulas rec env dfs lazy p ?req1 st")
  note unfold = DatedFormula_compute_def Let_def Go td
  show ?thesis
  proof (cases res)
    case (DatedFound g' dh')
    have r1: "in_progress r1 = in_progress ?req1"
      using try_dated_formulas_restores [OF rec td] DatedFound by simp
    have "remove_and_return r1 key f dh'
            (s1\<lparr>used_formula := (used_formula s1)(f \<mapsto> g')\<rparr>) = (Return dh, req', st')"
      using run DatedFound by (simp add: unfold)
    then show ?thesis using remove_and_return_Return [OF _ r1 g(2)] g(1) by auto
  next
    case (DatedNone last_holder)
    have r1: "in_progress r1 = in_progress ?req1"
      using try_dated_formulas_restores [OF rec td] DatedNone by simp
    let ?h = "case last_holder of
                None \<Rightarrow> at_period env (formula_holder env f) (Some p) | Some dh' \<Rightarrow> dh'"
    have "remove_and_return r1 key f ?h
            (set_array ?h (default_array env (formula_holder env f)) s1) = (Return dh, req', st')"
      using run DatedNone by (simp add: unfold)
    then show ?thesis using remove_and_return_Return [OF _ r1 g(2)] g(1) by auto
  next
    case (DatedFailed e)
    then show ?thesis using run by (simp add: unfold)
  next
    case DatedExhausted
    then show ?thesis using run by (simp add: unfold)
  qed
qed

lemma select_formula_restores:
  assumes rec: "restores rec"
    and "select_formula rec env fs p req st = (Selected c, req', st')"
  shows "in_progress req' = in_progress req"
  using assms(2)
proof (induction fs arbitrary: req st)
  case Nil
  then show ?case by auto
next
  case (Cons d fs)
  obtain mv g where d: "d = (mv, g)" by (cases d)
  obtain out r1 s1 where hc: "holder_compute rec env mv True (Some p) req st = (out, r1, s1)"
    by (cases "holder_compute rec env mv True (Some p) req st")
  show ?case
  proof (cases out)
    case (Return dh)
    have r1: "in_progress r1 = in_progress req"
      using holder_compute_restores [OF rec] hc Return by blast
    show ?thesis
    proof (cases "array_of s1 dh")
      case None
      then show ?thesis using Cons.prems d hc Return r1 Cons.IH [of r1 s1] by simp
    next
      case (Some a)
      then show ?thesis using Cons.prems d hc Return r1 by simp
    qed
  next
    case (Raise e)
    then show ?thesis using Cons.prems d hc by simp
  next
    case OutOfFuel
    then show ?thesis using Cons.prems d hc by simp
  qed
qed

lemma SelectFormula_compute_restores:
  assumes rec: "restores rec"
    and run: "SelectFormula_compute rec env f fs lazy period (Some req) st
                = (Return dh, req', st')"
  shows "in_progress req' = in_progress req"
proof (cases "open_compute env f lazy period (Some req)")
  case (Leave out r)
  then have "out = Return dh" "r = req'"
    using run by (simp_all add: SelectFormula_compute_def)
  then show ?thesis using open_compute_leave_return [of env f lazy period req dh req'] Leave by simp
next
  case (Go p key req0)
  note g = open_compute_go [OF Go]
  let ?req1 = "add_requested req0 key f"
  obtain res r1 s1 where sf: "select_formula rec env fs p ?req1 st = (res, r1, s1)"
    by (cases "select_formula rec env fs p ?req1 st")
  note unfold = SelectFormula_compute_def Let_def Go sf
  show ?thesis
  proof (cases res)
    case (Selected choice)
    have r1: "in_progress r1 = in_progress ?req1"
      using select_formula_restores [OF rec] sf Selected by blast
    let ?sel = "(case choice of
                       Some formula \<Rightarrow> Some formula
                     | None \<Rightarrow> (case fs of
                                  [] \<Rightarrow> None
                                | (main_variable, formula) # _ \<Rightarrow> Some formula))"
    show ?thesis
    proof (cases ?sel)
      case None
      then show ?thesis using run Selected by (simp add: unfold)
    next
      case (Some sel)
      obtain out r2 s2 where rc:
        "rec sel lazy (Some p) (Some r1) (s1\<lparr>used_formula := (used_formula s1)(f \<mapsto> sel)\<rparr>)
           = (out, r2, s2)"
        by (cases "rec sel lazy (Some p) (Some r1)
                     (s1\<lparr>used_formula := (used_formula s1)(f \<mapsto> sel)\<rparr>)")
      show ?thesis
      proof (cases out)
        case (Return dh')
        have r2: "in_progress r2 = in_progress ?req1"
          using restoresD [OF rec] rc Return r1 by metis
        have "remove_and_return r2 key f dh' s2 = (Return dh, req', st')"
          using run Selected Some rc Return by (simp add: unfold)
        then show ?thesis using remove_and_return_Return [OF _ r2 g(2)] g(1) by auto
      next
        case (Raise e)
        then show ?thesis using run Selected Some rc by (simp add: unfold)
      next
        case OutOfFuel
        then show ?thesis using run Selected Some rc by (simp add: unfold)
      qed
    qed
  next
    case (SelectFailed e)
    then show ?thesis using run by (simp add: unfold)
  next
    case SelectExhausted
    then show ?thesis using run by (simp add: unfold)
  qed
qed

lemma compute_restores: "restores (compute n env)"
proof (induction n)
  case 0
  show ?case by (simp add: restores_def)
next
  case (Suc n)
  show ?case
    unfolding restores_def
  proof (intro allI impI)
    fix f lazy period req st dh req' st'
    assume run: "compute (Suc n) env f lazy period (Some req) st = (Return dh, req', st')"
    show "in_progress req' = in_progress req"
    proof (cases "formula_class env f")
      case (SimpleFormula s)
      then show ?thesis using run SimpleFormula_compute_restores [OF Suc] by simp
    next
      case (AlternativeFormula alts)
      then show ?thesis using run AlternativeFormula_compute_restores [OF Suc] by simp
    next
      case (DatedFormula dfs)
      then show ?thesis using run DatedFormula_compute_restores [OF Suc] by simp
    next
      case (SelectFormula fs)
      then show ?thesis using run SelectFormula_compute_restores [OF Suc] by simp
    qed
  qed
qed

lemma open_compute_None:
  "open_compute env f lazy period None = open_compute env f lazy period (Some Map.empty)"
  by (cases period) (simp_all add: open_compute_def)

lemma compute_None:
  "compute n env f lazy period None st = compute n env f lazy period (Some Map.empty) st"
proof (cases n)
  case 0
  then show ?thesis by simp
next
  case (Suc m)
  then show ?thesis
    by (cases "formula_class env f")
       (simp_all add: SimpleFormula_compute_def AlternativeFormula_compute_def
          DatedFormula_compute_def SelectFormula_compute_def open_compute_None)
qed

lemma keepsD:
  "keeps rec \<Longrightarrow> rec f lazy period (Some req) st = (Raise err, req', st') \<Longrightarrow>
   in_progress req key \<subseteq> in_progress req' key"
  unfolding keeps_def by blast

lemma in_progress_add:
  "in_progress (add_requested req key f) k =
     (if k = key then insert f (in_progress req key) else in_progress req k)"
  by (simp add: add_requested_def in_progress_def)

lemma holder_compute_keeps:
  assumes "keeps rec"
    and "holder_compute rec env v lazy period req st = (Raise e, req', st')"
  shows "in_progress req key \<subseteq> in_progress req' key"
proof (cases "array_of st (at_period env v period)")
  case None
  then have "rec (holder_formula env v) lazy period (Some req) st = (Raise e, req', st')"
    using assms(2) by (simp add: holder_compute_def Let_def)
  then show ?thesis by (rule keepsD [OF assms(1)])
next
  case (Some a)
  then show ?thesis using assms(2) by (simp add: holder_compute_def Let_def)
qed

lemma compute_variables_keeps:
  assumes rec: "restores rec" and k: "keeps rec"
    and "compute_variables rec env cn s lazy op names args req st = (Failed e, req', st')"
  shows "in_progress req key \<subseteq> in_progress req' key"
  using assms(3)
proof (induction names arbitrary: args req st)
  case Nil
  then show ?case by simp
next
  case (Cons name names)
  obtain out r1 s1 where hc:
    "holder_compute rec env (clean_variable_name name) lazy (get_variable_period s op name) req st
       = (out, r1, s1)"
    by (cases "holder_compute rec env (clean_variable_name name) lazy
                 (get_variable_period s op name) req st")
  show ?case
  proof (cases out)
    case (Return vdh)
    have r1: "in_progress r1 = in_progress req"
      using holder_compute_restores [OF rec] hc Return by blast
    show ?thesis
    proof (cases "array_of s1 vdh")
      case None
      then have "req' = r1"
        using Cons.prems hc Return by (auto simp: Let_def split: if_splits)
      then show ?thesis using r1 by simp
    next
      case (Some a)
      then have "compute_variables rec env cn s lazy op names
                   ((name, (if ends_with_holder name then HolderArg vdh a else ArrayArg a)) # args)
                   r1 s1 = (Failed e, req', st')"
        using Cons.prems hc Return by (simp add: Let_def)
      from Cons.IH [OF this] show ?thesis using r1 by simp
    qed
  next
    case (Raise e')
    then have "req' = r1" using Cons.prems hc by (simp add: Let_def)
    then show ?thesis using holder_compute_keeps [OF k, of env] hc Raise by blast
  next
    case OutOfFuel
    then show ?thesis using Cons.prems hc by (simp add: Let_def)
  qed
qed

lemma remove_and_return_Raise:
  "remove_and_return req key f dh st = (Raise e, req', st') \<Longrightarrow> req' = req"
  by (auto simp: remove_and_return_def split: sum.splits)

lemma call_function_Raise:
  "call_function env f s key op args req st = (Raise e, req', st') \<Longrightarrow> req' = req"
  by (auto simp: call_function_def Let_def split: sum.splits py_value.splits
      dest: remove_and_return_Raise)

lemma open_compute_leave:
  assumes "open_compute env f lazy period (Some req) = Leave out req'"
  shows "req' = req"
proof (cases period)
  case None
  then show ?thesis using assms by (simp add: open_compute_def)
next
  case (Some q)
  then show ?thesis using assms
    by (simp add: open_compute_def Let_def split: option.splits if_splits)
qed

lemma SimpleFormula_compute_Raise:
  assumes rec: "restores rec" and k: "keeps rec"
    and run: "SimpleFormula_compute rec env f s lazy period (Some req) st = (Raise err, req', st')"
    and go: "open_compute env f lazy period (Some req) = Go p key req0"
  shows "if output_period_accepted env s p \<and>
            array_of st (at_period env (formula_holder env f) (clipped_output_period env f s p))
              = None
         then \<forall>k. in_progress (add_requested req0 key f) k \<subseteq> in_progress req' k
         else req' = req0"
proof (cases "output_period_accepted env s p")
  case False
  then have "req' = req0"
    using run go
    by (auto simp: SimpleFormula_compute_def Let_def output_period_accepted_def split: if_splits)
  then show ?thesis using False by simp
next
  case True
  let ?v = "formula_holder env f"
  let ?col = "holder_column env ?v"
  let ?op = "intersection env (get_output_period s p) (column_start ?col) (column_end ?col)"
  let ?dh = "at_period env ?v ?op"
  let ?req1 = "add_requested req0 key f"
  have checks: "fst (get_output_period s p) = formula_period_unit s"
    "fst (snd (get_output_period s p)) \<le> fst (snd p) \<and>
       fst (snd p) \<le> stop_instant env (get_output_period s p)"
    using True by (simp_all add: output_period_accepted_def)
  have op: "clipped_output_period env f s p = ?op" by (simp add: clipped_output_period_def)
  show ?thesis
  proof (cases "array_of st ?dh")
    case (Some a)
    then show ?thesis using run go checks by (simp add: SimpleFormula_compute_def Let_def)
  next
    case None
    obtain res r1 s1 where cv:
      "compute_variables rec env (column_name ?col) s lazy ?op (variables_name s) [] ?req1 st
         = (res, r1, s1)"
      by (cases "compute_variables rec env (column_name ?col) s lazy ?op (variables_name s)
                   [] ?req1 st")
    note unfold = SimpleFormula_compute_def Let_def go checks None cv
    have sub: "\<forall>k. in_progress ?req1 k \<subseteq> in_progress req' k"
    proof (cases res)
      case (Resolved arguments)
      have r1: "in_progress r1 = in_progress ?req1"
        using compute_variables_restores [OF rec cv] Resolved by simp
      have "(case other_arguments f s ?op arguments of
                        Inl err \<Rightarrow> (Raise err, r1, s1)
                      | Inr arguments \<Rightarrow>
                          if set (map fst arguments) \<noteq> required_parameters s
                          then (Raise (AssertionError MissingParameters), r1, s1)
                          else call_function env f s key ?op arguments r1 s1)
             = (Raise err, req', st')"
        using run Resolved by (simp add: unfold)
      then have "req' = r1"
        by (auto split: sum.splits if_splits dest: call_function_Raise)
      then show ?thesis using r1 by simp
    next
      case Missing
      have r1: "in_progress r1 = in_progress ?req1"
        using compute_variables_restores [OF rec cv] Missing by simp
      have "remove_and_return r1 key f ?dh s1 = (Raise err, req', st')"
        using run Missing by (simp add: unfold)
      then have "req' = r1" by (rule remove_and_return_Raise)
      then show ?thesis using r1 by simp
    next
      case (Failed e)
      then have "e = err" "req' = r1" using run by (simp_all add: unfold)
      then show ?thesis using compute_variables_keeps [OF rec k] cv Failed by blast
    next
      case Exhausted
      then show ?thesis using run by (simp add: unfold)
    qed
    show ?thesis using True None sub op by simp
  qed
qed

lemma AlternativeFormula_compute_Raise:
  assumes rec: "restores rec" and k: "keeps rec"
    and run: "AlternativeFormula_compute rec env f alts lazy period (Some req) st
                = (Raise err, req', st')"
    and go: "open_compute env f lazy period (Some req) = Go p key req0"
  shows "in_progress (add_requested req0 key f) k \<subseteq> in_progress req' k"
proof -
  let ?req1 = "add_requested req0 key f"
  obtain res s1 where ta: "try_alternatives rec alts p ?req1 None st = (res, s1)"
    by (cases "try_alternatives rec alts p ?req1 None st")
  note unfold = AlternativeFormula_compute_def Let_def go ta
  show ?thesis
  proof (cases res)
    case (Found g' dh')
    then have "remove_and_return ?req1 key f dh'
                 (s1\<lparr>used_formula := (used_formula s1)(f \<mapsto> g')\<rparr>) = (Raise err, req', st')"
      using run by (simp add: unfold)
    then have "req' = ?req1" by (rule remove_and_return_Raise)
    then show ?thesis by simp
  next
    case (NoneFound last_holder)
    have step: "(if lazy then
                (case last_holder of
                   None \<Rightarrow> (Raise UnboundLocalError, ?req1, s1)
                 | Some dh' \<Rightarrow> remove_and_return ?req1 key f dh' s1)
              else
                (case alts of
                   [] \<Rightarrow> (Raise IndexError, ?req1, s1)
                 | a # _ \<Rightarrow>
                     (case rec a lazy (Some p) (Some ?req1)
                             (s1\<lparr>used_formula := (used_formula s1)(f \<mapsto> a)\<rparr>) of
                        (Return dh', r2, s2) \<Rightarrow> remove_and_return r2 key f dh' s2
                      | (out, r2, s2) \<Rightarrow> (out, r2, s2)))) = (Raise err, req', st')"
      using run NoneFound by (simp add: unfold)
    show ?thesis
    proof (cases lazy)
      case True
      then have "(case last_holder of
                   None \<Rightarrow> (Raise UnboundLocalError, ?req1, s1)
                 | Some dh' \<Rightarrow> remove_and_return ?req1 key f dh' s1) = (Raise err, req', st')"
        using step by simp
      then have "req' = ?req1"
        by (auto split: option.splits dest: remove_and_return_Raise)
      then show ?thesis by simp
    next
      case False
      show ?thesis
      proof (cases alts)
        case Nil
        then show ?thesis using step False by simp
      next
        case (Cons a rest)
        obtain out r2 s2 where rc:
          "rec a lazy (Some p) (Some ?req1) (s1\<lparr>used_formula := (used_formula s1)(f \<mapsto> a)\<rparr>)
             = (out, r2, s2)"
          by (cases "rec a lazy (Some p) (Some ?req1)
                       (s1\<lparr>used_formula := (used_formula s1)(f \<mapsto> a)\<rparr>)")
        have step': "(case out of Return dh' \<Rightarrow> remove_and_return r2 key f dh' s2
                       | _ \<Rightarrow> (out, r2, s2)) = (Raise err, req', st')"
          using step False Cons rc by (cases out) simp_all
        show ?thesis
        proof (cases out)
          case (Return dh')
          have r2: "in_progress r2 = in_progress ?req1"
            using restoresD [OF rec] rc Return by blast
          have "remove_and_return r2 key f dh' s2 = (Raise err, req', st')"
            using step' Return by simp
          then have "req' = r2" by (rule remove_and_return_Raise)
          then show ?thesis using r2 by simp
        next
          case (Raise e)
          then have "req' = r2" using step' by simp
          then show ?thesis using keepsD [OF k] rc Raise by blast
        next
          case OutOfFuel
          then show ?thesis using step' by simp
        qed
      qed
    qed
  next
    case (AlternativeFailed e)
    then have "req' = ?req1" using run by (simp add: unfold)
    then show ?thesis by simp
  next
    case AlternativeExhausted
    then show ?thesis using run by (simp add: unfold)
  qed
qed

lemma try_dated_formulas_keeps:
  assumes k: "keeps rec"
    and "try_dated_formulas rec env dfs lazy p req st = (DatedFailed e, req', st')"
  shows "in_progress req key \<subseteq> in_progress req' key"
  using assms(2)
proof (induction dfs)
  case Nil
  then show ?case by simp
next
  case (Cons d dfs)
  obtain g a b where d: "d = (g, a, b)" by (cases d)
  show ?case
  proof (cases "a > stop_instant env p")
    case True
    then show ?thesis using Cons.prems d by simp
  next
    case False
    show ?thesis
    proof (cases "intersection env p (Some a) (Some b)")
      case None
      then show ?thesis using Cons d False by simp
    next
      case (Some op)
      obtain out r1 s1 where rc: "rec g lazy (Some op) (Some req) st = (out, r1, s1)"
        by (cases "rec g lazy (Some op) (Some req) st")
      show ?thesis
      proof (cases out)
        case (Return dh)
        then show ?thesis using Cons.prems d False Some rc by (simp split: if_splits)
      next
        case (Raise e')
        then have "req' = r1" using Cons.prems d False Some rc by simp
        then show ?thesis using keepsD [OF k] rc Raise by blast
      next
        case OutOfFuel
        then show ?thesis using Cons.prems d False Some rc by simp
      qed
    qed
  qed
qed

lemma DatedFormula_compute_Raise:
  assumes rec: "restores rec" and k: "keeps rec"
    and run: "DatedFormula_compute rec env f dfs lazy period (Some req) st
                = (Raise err, req', st')"
    and go: "open_compute env f lazy period (Some req) = Go p key req0"
  shows "in_progress (add_requested req0 key f) k \<subseteq> in_progress req' k"
proof -
  let ?req1 = "add_requested req0 key f"
  obtain res r1 s1 where td: "try_dated_formulas rec env dfs lazy p ?req1 st = (res, r1, s1)"
    by (cases "try_dated_formulas rec env dfs lazy p ?req1 st")
  note unfold = DatedFormula_compute_def Let_def go td
  show ?thesis
  proof (cases res)
    case (DatedFound g' dh')
    have r1: "in_progress r1 = in_progress ?req1"
      using try_dated_formulas_restores [OF rec td] DatedFound by simp
    have "remove_and_return r1 key f dh'
            (s1\<lparr>used_formula := (used_formula s1)(f \<mapsto> g')\<rparr>) = (Raise err, req', st')"
      using run DatedFound by (simp add: unfold)
    then have "req' = r1" by (rule remove_and_return_Raise)
    then show ?thesis using r1 by simp
  next
    case (DatedNone last_holder)
    have r1: "in_progress r1 = in_progress ?req1"
      using try_dated_formulas_restores [OF rec td] DatedNone by simp
    let ?h = "case last_holder of
                None \<Rightarrow> at_period env (formula_holder env f) (Some p) | Some dh' \<Rightarrow> dh'"
    have "remove_and_return r1 key f ?h
            (set_array ?h (default_array env (formula_holder env f)) s1) = (Raise err, req', st')"
      using run DatedNone by (simp add: unfold)
    then have "req' = r1" by (rule remove_and_return_Raise)
    then show ?thesis using r1 by simp
  next
    case (DatedFailed e)
    then have "e = err" "req' = r1" using run by (simp_all add: unfold)
    then show ?thesis using try_dated_formulas_keeps [OF k] td DatedFailed by blast
  next
    case DatedExhausted
    then show ?thesis using run by (simp add: unfold)
  qed
qed

lemma select_formula_keeps:
  assumes rec: "restores rec" and k: "keeps rec"
    and "select_formula rec env fs p req st = (SelectFailed e, req', st')"
  shows "in_progress req key \<subseteq> in_progress req' key"
  using assms(3)
proof (induction fs arbitrary: req st)
  case Nil
  then show ?case by simp
next
  case (Cons d fs)
  obtain mv g where d: "d = (mv, g)" by (cases d)
  obtain out r1 s1 where hc: "holder_compute rec env mv True (Some p) req st = (out, r1, s1)"
    by (cases "holder_compute rec env mv True (Some p) req st")
  show ?case
  proof (cases out)
    case (Return dh)
    have r1: "in_progress r1 = in_progress req"
      using holder_compute_restores [OF rec] hc Return by blast
    show ?thesis
    proof (cases "array_of s1 dh")
      case None
      then have "select_formula rec env fs p r1 s1 = (SelectFailed e, req', st')"
        using Cons.prems d hc Return by simp
      from Cons.IH [OF this] show ?thesis using r1 by simp
    next
      case (Some a)
      then show ?thesis using Cons.prems d hc Return by simp
    qed
  next
    case (Raise e')
    then have "req' = r1" using Cons.prems d hc by simp
    then show ?thesis using holder_compute_keeps [OF k, of env] hc Raise by blast
  next
    case OutOfFuel
    then show ?thesis using Cons.prems d hc by simp
  qed
qed

lemma SelectFormula_compute_Raise:
  assumes rec: "restores rec" and k: "keeps rec"
    and run: "SelectFormula_compute rec env f fs lazy period (Some req) st
                = (Raise err, req', st')"
    and go: "open_compute env f lazy period (Some req) = Go p key req0"
  shows "in_progress (add_requested req0 key f) k \<subseteq> in_progress req' k"
proof -
  let ?req1 = "add_requested req0 key f"
  obtain res r1 s1 where sf: "select_formula rec env fs p ?req1 st = (res, r1, s1)"
    by (cases "select_formula rec env fs p ?req1 st")
  note unfold = SelectFormula_compute_def Let_def go sf
  show ?thesis
  proof (cases res)
    case (Selected choice)
    have r1: "in_progress r1 = in_progress ?req1"
      using select_formula_restores [OF rec] sf Selected by blast
    let ?sel = "(case choice of
                       Some formula \<Rightarrow> Some formula
                     | None \<Rightarrow> (case fs of
                                  [] \<Rightarrow> None
                                | (main_variable, formula) # _ \<Rightarrow> Some formula))"
    show ?thesis
    proof (cases ?sel)
      case None
      then have "req' = r1" using run Selected by (simp add: unfold)
      then show ?thesis using r1 by simp
    next
      case (Some sel)
      obtain out r2 s2 where rc:
        "rec sel lazy (Some p) (Some r1) (s1\<lparr>used_formula := (used_formula s1)(f \<mapsto> sel)\<rparr>)
           = (out, r2, s2)"
        by (cases "rec sel lazy (Some p) (Some r1)
                     (s1\<lparr>used_formula := (used_formula s1)(f \<mapsto> sel)\<rparr>)")
      show ?thesis
      proof (cases out)
        case (Return dh')
        have r2: "in_progress r2 = in_progress ?req1"
          using restoresD [OF rec] rc Return r1 by metis
        have "remove_and_return r2 key f dh' s2 = (Raise err, req', st')"
          using run Selected Some rc Return by (simp add: unfold)
        then have "req' = r2" by (rule remove_and_return_Raise)
        then show ?thesis using r2 by simp
      next
        case (Raise e)
        then have "req' = r2" using run Selected Some rc by (simp add: unfold)
        moreover have "in_progress r1 k \<subseteq> in_progress r2 k"
          using keepsD [OF k] rc Raise by blast
        ultimately show ?thesis using r1 by simp
      next
        case OutOfFuel
        then show ?thesis using run Selected Some rc by (simp add: unfold)
      qed
    qed
  next
    case (SelectFailed e)
    then have "e = err" "req' = r1" using run by (simp_all add: unfold)
    then show ?thesis using select_formula_keeps [OF rec k] sf SelectFailed by blast
  next
    case SelectExhausted
    then show ?thesis using run by (simp add: unfold)
  qed
qed

lemma compute_Suc_Raise:
  assumes k: "keeps (compute n env)"
    and run: "compute (Suc n) env f lazy period (Some req) st = (Raise err, req', st')"
  shows "(\<forall>key. in_progress req key \<subseteq> in_progress req' key)
       \<and> (adds_mark env f lazy period (Some req) st \<longrightarrow>
            (\<exists>p. period = Some p \<and> f \<in> in_progress req' (period_key env f p)))
       \<and> (\<not> adds_mark env f lazy period (Some req) st \<longrightarrow>
            in_progress req' = in_progress req)"
proof (cases "open_compute env f lazy period (Some req)")
  case (Leave out r)
  have r: "r = req" using open_compute_leave [of env f lazy period req out r] Leave by simp
  have "req' = req"
    using run Leave r
    by (cases "formula_class env f")
       (simp_all add: SimpleFormula_compute_def AlternativeFormula_compute_def
          DatedFormula_compute_def SelectFormula_compute_def)
  moreover have "\<not> adds_mark env f lazy period (Some req) st"
    using Leave by (simp add: adds_mark_def)
  ultimately show ?thesis by simp
next
  case (Go p key req0)
  note g = open_compute_go [OF Go]
  note rec = compute_restores [of n env]
  have added: "\<forall>k. in_progress (add_requested req0 key f) k \<subseteq> in_progress req' k
     \<Longrightarrow> (\<forall>key. in_progress req key \<subseteq> in_progress req' key)
         \<and> (\<exists>p. period = Some p \<and> f \<in> in_progress req' (period_key env f p))"
  proof -
    assume sub: "\<forall>k. in_progress (add_requested req0 key f) k \<subseteq> in_progress req' k"
    have "in_progress req k' \<subseteq> in_progress req' k'" for k'
      using sub [rule_format, of k'] g(1) by (auto simp: in_progress_add split: if_splits)
    moreover have "f \<in> in_progress req' key"
      using sub [rule_format, of key] by (simp add: in_progress_add)
    ultimately show ?thesis using g(3,4) by simp
  qed
  show ?thesis
  proof (cases "formula_class env f")
    case (SimpleFormula s)
    have run': "SimpleFormula_compute (compute n env) env f s lazy period (Some req) st
                  = (Raise err, req', st')"
      using run SimpleFormula by simp
    let ?c = "output_period_accepted env s p \<and>
            array_of st (at_period env (formula_holder env f) (clipped_output_period env f s p))
              = None"
    have am: "adds_mark env f lazy period (Some req) st = ?c"
      using Go SimpleFormula by (simp add: adds_mark_def)
    note R = SimpleFormula_compute_Raise [OF rec k run' Go]
    show ?thesis
    proof (cases ?c)
      case True
      then have "\<forall>k. in_progress (add_requested req0 key f) k \<subseteq> in_progress req' k"
        using R by simp
      from added [OF this] show ?thesis using am True by simp
    next
      case False
      then have "req' = req0" using R by simp
      then show ?thesis using am False g(1) by simp
    qed
  next
    case (AlternativeFormula alts)
    have run': "AlternativeFormula_compute (compute n env) env f alts lazy period (Some req) st
                  = (Raise err, req', st')"
      using run AlternativeFormula by simp
    have "\<forall>k. in_progress (add_requested req0 key f) k \<subseteq> in_progress req' k"
      using AlternativeFormula_compute_Raise [OF rec k run' Go] by blast
    from added [OF this] show ?thesis using Go AlternativeFormula by (simp add: adds_mark_def)
  next
    case (DatedFormula dfs)
    have run': "DatedFormula_compute (compute n env) env f dfs lazy period (Some req) st
                  = (Raise err, req', st')"
      using run DatedFormula by simp
    have "\<forall>k. in_progress (add_requested req0 key f) k \<subseteq> in_progress req' k"
      using DatedFormula_compute_Raise [OF rec k run' Go] by blast
    from added [OF this] show ?thesis using Go DatedFormula by (simp add: adds_mark_def)
  next
    case (SelectFormula fs)
    have run': "SelectFormula_compute (compute n env) env f fs lazy period (Some req) st
                  = (Raise err, req', st')"
      using run SelectFormula by simp
    have "\<forall>k. in_progress (add_requested req0 key f) k \<subseteq> in_progress req' k"
      using SelectFormula_compute_Raise [OF rec k run' Go] by blast
    from added [OF this] show ?thesis using Go SelectFormula by (simp add: adds_mark_def)
  qed
qed

lemma compute_keeps: "keeps (compute n env)"
proof (induction n)
  case 0
  show ?case by (simp add: keeps_def)
next
  case (Suc n)
  show ?case
    unfolding keeps_def
  proof (intro allI impI)
    fix f lazy period req st err req' st' key
    assume "compute (Suc n) env f lazy period (Some req) st = (Raise err, req', st')"
    from compute_Suc_Raise [OF Suc this]
    show "in_progress req key \<subseteq> in_progress req' key" by blast
  qed
qed

lemma adds_mark_None:
  "adds_mark env f lazy period None st = adds_mark env f lazy period (Some Map.empty) st"
  by (simp add: adds_mark_def open_compute_None)

lemma compute_Raise:
  assumes run: "compute n env f lazy period requested st = (Raise err, req', st')"
  shows "(adds_mark env f lazy period requested st \<longrightarrow>
            (\<exists>p. period = Some p \<and> f \<in> in_progress req' (period_key env f p)))
       \<and> (\<not> adds_mark env f lazy period requested st \<longrightarrow>
            in_progress req' = in_progress (case requested of None \<Rightarrow> Map.empty | Some r \<Rightarrow> r))"
proof -
  let ?r = "case requested of None \<Rightarrow> Map.empty | Some r \<Rightarrow> r"
  have run': "compute n env f lazy period (Some ?r) st = (Raise err, req', st')"
    using run by (cases requested) (simp_all add: compute_None)
  have am: "adds_mark env f lazy period requested st = adds_mark env f lazy period (Some ?r) st"
    by (cases requested) (simp_all add: adds_mark_None)
  obtain m where n: "n = Suc m" using run' by (cases n) auto
  show ?thesis
    using compute_Suc_Raise [OF compute_keeps, of m env f lazy period ?r st err req' st']
      run' n am by simp
qed

text \<open>
  Claim C7, as the code has it. No \<open>compute\<close> method protects the removal of its mark
  with \<open>try ... finally\<close>: when the function of \<open>age\<close> returns an array of the wrong
  size, the top-level \<open>compute\<close> fails and its dictionary still marks the formula.
\<close>

theorem marker_stays_after_failure:
  "(case compute 1 example_env 2 False (Some year_2014) None empty_state of
      (out, req, st) \<Rightarrow>
        out = Raise (AssertionError (WrongSize 3 2)) \<and> 2 \<in> in_progress req (Some year_2014))"
  by code_simp

text \<open>
  Claim C7, amended. Whenever a \<open>compute\<close> returns (normal success and lazy-absent
  return alike), for every key the formulas marked in progress are those marked before
  the call; after a top-level call, which starts from no dictionary, no formula is marked.
  Whenever a \<open>compute\<close> fails after it has added its formula to the set of the period
  key, whatever the error, the formula is still in that set when the method is left;
  whenever it fails before (the assertion on the period, the one on the cycle, the two on
  the output period of a \<open>SimpleFormula\<close>), the sets are as the call found them. This
  holds of the four classes and at every depth of the calls.
\<close>

theorem marker_removed_on_return_only:
  "(compute n env f lazy period requested st = (Return dh, req', st') \<longrightarrow>
      in_progress req' = in_progress (case requested of None \<Rightarrow> Map.empty | Some r \<Rightarrow> r)
      \<and> (requested = None \<longrightarrow> (\<forall>key. in_progress req' key = {})))
   \<and> (compute n env f lazy (Some p) requested st = (Raise err, req', st') \<and>
        adds_mark env f lazy (Some p) requested st \<longrightarrow>
          f \<in> in_progress req' (period_key env f p))
   \<and> (compute n env f lazy period requested st = (Raise err, req', st') \<and>
        \<not> adds_mark env f lazy period requested st \<longrightarrow>
          in_progress req' = in_progress (case requested of None \<Rightarrow> Map.empty | Some r \<Rightarrow> r))"
proof (intro conjI impI)
  let ?r = "case requested of None \<Rightarrow> Map.empty | Some r \<Rightarrow> r"
  {
    assume run: "compute n env f lazy period requested st = (Return dh, req', st')"
    have "compute n env f lazy period (Some ?r) st = (Return dh, req', st')"
      using run by (cases requested) (simp_all add: compute_None)
    then show eq: "in_progress req' = in_progress ?r"
      using compute_restores [of n env] by (rule restoresD [rotated])
    assume "requested = None"
    then show "\<forall>key. in_progress req' key = {}"
      using eq by (simp add: in_progress_def)
  }
  {
    assume "compute n env f lazy (Some p) requested st = (Raise err, req', st') \<and>
        adds_mark env f lazy (Some p) requested st"
    then show "f \<in> in_progress req' (period_key env f p)"
      using compute_Raise [of n env f lazy "Some p" requested st err req' st'] by blast
  }
  {
    assume "compute n env f lazy period requested st = (Raise err, req', st') \<and>
        \<not> adds_mark env f lazy period requested st"
    then show "in_progress req' = in_progress ?r"
      using compute_Raise [of n env f lazy period requested st err req' st'] by blast
  }
qed

lemma tax_computed:
  "fst (compute 2 example_env 1 False (Some year_2014) None empty_state)
     = Return (''tax'', Some year_2014)"
  by code_simp

lemma age_fails:
  "fst (compute 1 example_env 2 False (Some year_2014) None empty_state)
     = Raise (AssertionError (WrongSize 3 2))"
  by code_simp

lemma age_adds_mark: "adds_mark example_env 2 False (Some year_2014) None empty_state"
  by code_simp

lemma income_fails:
  "fst (compute 2 example_env 7 False (Some year_2014) None empty_state)
     = Raise (AssertionError (WrongSize 3 2))"
  by code_simp

lemma income_adds_mark: "adds_mark example_env 7 False (Some year_2014) None empty_state"
  by code_simp

lemma a_in_cycle:
  "compute 1 example_env 4 False (Some year_2014) (Some [Some year_2014 \<mapsto> {4, 5}]) empty_state
     = (Raise (AssertionError (InfiniteLoop ''a'' {''a'', ''b''})),
        [Some year_2014 \<mapsto> {4, 5}], empty_state)"
proof -
  have cls: "formula_class example_env 4 = SimpleFormula (example_simple [''b''] (\<lambda>args. Inr PyNone))"
    by (simp add: example_env_def example_formulas_def)
  have names: "requested_names example_env {4, 5} = {''a'', ''b''}"
    by (simp add: requested_names_def example_env_def example_names_def example_column_def)
  have leaves: "open_compute example_env 4 False (Some year_2014) (Some [Some year_2014 \<mapsto> {4, 5}])
      = Leave (Raise (AssertionError (InfiniteLoop ''a'' {''a'', ''b''}))) [Some year_2014 \<mapsto> {4, 5}]"
    using names
    by (simp add: open_compute_def Let_def example_env_def example_names_def example_column_def)
  have one: "(1::nat) = Suc 0" by simp
  show ?thesis
    unfolding one by (simp add: cls SimpleFormula_compute_def leaves)
qed

lemma a_adds_no_mark:
  "\<not> adds_mark example_env 4 False (Some year_2014) (Some [Some year_2014 \<mapsto> {4, 5}]) empty_state"
  by (simp add: adds_mark_def open_compute_def Let_def example_env_def example_names_def
      example_column_def)

theorem marker_removed_on_return_only_witness:
  "fst (compute 2 example_env 1 False (Some year_2014) None empty_state)
      = Return (''tax'', Some year_2014)
   \<and> in_progress (fst (snd (compute 2 example_env 1 False (Some year_2014) None empty_state)))
        (Some year_2014) = {}
   \<and> fst (compute 1 example_env 2 False (Some year_2014) None empty_state)
      = Raise (AssertionError (WrongSize 3 2))
   \<and> adds_mark example_env 2 False (Some year_2014) None empty_state
   \<and> 2 \<in> in_progress (fst (snd (compute 1 example_env 2 False (Some year_2014) None empty_state)))
        (Some year_2014)
   \<and> fst (compute 2 example_env 7 False (Some year_2014) None empty_state)
      = Raise (AssertionError (WrongSize 3 2))
   \<and> adds_mark example_env 7 False (Some year_2014) None empty_state
   \<and> 7 \<in> in_progress (fst (snd (compute 2 example_env 7 False (Some year_2014) None empty_state)))
        (Some year_2014)
   \<and> fst (compute 1 example_env 4 False (Some year_2014)
            (Some [Some year_2014 \<mapsto> {4, 5}]) empty_state)
      = Raise (AssertionError (InfiniteLoop ''a'' {''a'', ''b''}))
   \<and> \<not> adds_mark example_env 4 False (Some year_2014)
            (Some [Some year_2014 \<mapsto> {4, 5}]) empty_state
   \<and> in_progress (fst (snd (compute 1 example_env 4 False (Some year_2014)
            (Some [Some year_2014 \<mapsto> {4, 5}]) empty_state))) (Some year_2014) = {4, 5}"
proof -
  obtain req1 st1 where run1:
    "compute 2 example_env 1 False (Some year_2014) None empty_state
       = (Return (''tax'', Some year_2014), req1, st1)"
    using tax_computed by (metis prod.collapse)
  have "\<forall>key. in_progress req1 key = {}"
    using marker_removed_on_return_only
      [of 2 example_env 1 False "Some year_2014" None empty_state "(''tax'', Some year_2014)"
         req1 st1, THEN conjunct1]
      run1 by blast
  then have returned: "in_progress req1 (Some year_2014) = {}" by blast
  obtain req2 st2 where run2:
    "compute 1 example_env 2 False (Some year_2014) None empty_state
       = (Raise (AssertionError (WrongSize 3 2)), req2, st2)"
    using age_fails by (metis prod.collapse)
  have "2 \<in> in_progress req2 (period_key example_env 2 year_2014)"
    using marker_removed_on_return_only
      [of 1 example_env 2 False "Some year_2014" None empty_state _ req2 st2 year_2014
         "AssertionError (WrongSize 3 2)", THEN conjunct2, THEN conjunct1]
      run2 age_adds_mark by blast
  then have failed: "2 \<in> in_progress req2 (Some year_2014)"
    by (simp add: period_key_def example_env_def example_column_def)
  obtain req3 st3 where run3:
    "compute 2 example_env 7 False (Some year_2014) None empty_state
       = (Raise (AssertionError (WrongSize 3 2)), req3, st3)"
    using income_fails by (metis prod.collapse)
  have "7 \<in> in_progress req3 (period_key example_env 7 year_2014)"
    using marker_removed_on_return_only
      [of 2 example_env 7 False "Some year_2014" None empty_state _ req3 st3 year_2014
         "AssertionError (WrongSize 3 2)", THEN conjunct2, THEN conjunct1]
      run3 income_adds_mark by blast
  then have grouped: "7 \<in> in_progress req3 (Some year_2014)"
    by (simp add: period_key_def example_env_def example_column_def)
  have early: "in_progress [Some year_2014 \<mapsto> {4, 5}] (Some year_2014) = {4, 5}"
    by (simp add: in_progress_def)
  have kept: "in_progress (fst (snd (compute 1 example_env 4 False (Some year_2014)
            (Some [Some year_2014 \<mapsto> {4, 5}]) empty_state)))
         = in_progress [Some year_2014 \<mapsto> {4, 5}]"
    using marker_removed_on_return_only
      [of 1 example_env 4 False "Some year_2014" "Some [Some year_2014 \<mapsto> {4, 5}]" empty_state
         _ "[Some year_2014 \<mapsto> {4, 5}]" empty_state _
         "AssertionError (InfiniteLoop ''a'' {''a'', ''b''})", THEN conjunct2, THEN conjunct2]
      a_in_cycle a_adds_no_mark
    by simp
  show ?thesis
    unfolding run1 run2 run3 fst_conv snd_conv
    using returned failed grouped age_adds_mark income_adds_mark a_adds_no_mark kept early
      a_in_cycle
    by simp
qed

subsection \<open>Memoization\<close>

lemma remove_and_return_shape:
  "remove_and_return req key f dh st = (Return dh', r, s') \<Longrightarrow> dh' = dh \<and> s' = st"
  by (auto simp: remove_and_return_def split: sum.splits)

lemma call_function_shape:
  "call_function env f s key op args req st = (Return dh, r, s') \<Longrightarrow>
   dh = at_period env (formula_holder env f) op"
  by (auto simp: call_function_def Let_def split: sum.splits py_value.splits
      dest: remove_and_return_shape)

lemma compute_variables_not_missing:
  "compute_variables rec env cn s False op names args req st = (res, r, s') \<Longrightarrow> res \<noteq> Missing"
proof (induction names arbitrary: args req st)
  case Nil
  then show ?case by auto
next
  case (Cons name names)
  obtain out r1 s1 where hc:
    "holder_compute rec env (clean_variable_name name) False (get_variable_period s op name) req st
       = (out, r1, s1)"
    by (cases "holder_compute rec env (clean_variable_name name) False
                 (get_variable_period s op name) req st")
  show ?case
  proof (cases out)
    case (Return vdh)
    show ?thesis
    proof (cases "array_of s1 vdh")
      case None
      then show ?thesis using Cons.prems hc Return by (auto simp: Let_def)
    next
      case (Some a)
      then show ?thesis using Cons.prems hc Return Cons.IH by (auto simp: Let_def)
    qed
  next
    case (Raise e)
    then show ?thesis using Cons.prems hc by (auto simp: Let_def)
  next
    case OutOfFuel
    then show ?thesis using Cons.prems hc by (auto simp: Let_def)
  qed
qed

lemma SimpleFormula_compute_hit:
  assumes "open_compute env f lazy (Some p) requested = Go p key req"
    and "output_period_accepted env s p"
    and "array_of st (at_period env (formula_holder env f) (clipped_output_period env f s p))
           = Some a"
  shows "SimpleFormula_compute rec env f s lazy (Some p) requested st =
           (Return (at_period env (formula_holder env f) (clipped_output_period env f s p)),
            req, st)"
  using assms
  by (simp add: SimpleFormula_compute_def Let_def output_period_accepted_def
      clipped_output_period_def)

lemma open_compute_top:
  "open_compute env f lazy (Some p) None =
     Go p (period_key env f p) (Map.empty(period_key env f p \<mapsto> {}))"
  by (simp add: open_compute_def period_key_def Let_def)

lemma SimpleFormula_compute_shape:
  assumes run: "SimpleFormula_compute rec env f s False (Some p) None st = (Return dh, r, st')"
  shows "output_period_accepted env s p \<and>
         dh = at_period env (formula_holder env f) (clipped_output_period env f s p)"
proof -
  let ?key = "period_key env f p"
  let ?req0 = "Map.empty(?key \<mapsto> {})"
  let ?v = "formula_holder env f"
  let ?col = "holder_column env ?v"
  let ?op = "clipped_output_period env f s p"
  let ?dh = "at_period env ?v ?op"
  note top = open_compute_top [of env f False p]
  have acc: "output_period_accepted env s p"
    using run top
    by (auto simp: SimpleFormula_compute_def Let_def output_period_accepted_def
        split: if_splits)
  then have checks: "fst (get_output_period s p) = formula_period_unit s"
    "fst (snd (get_output_period s p)) \<le> fst (snd p) \<and>
       fst (snd p) \<le> stop_instant env (get_output_period s p)"
    by (simp_all add: output_period_accepted_def)
  have "dh = ?dh"
  proof (cases "array_of st ?dh")
    case (Some a)
    then show ?thesis
      using run SimpleFormula_compute_hit [OF top acc Some, of rec] by simp
  next
    case None
    then have none: "array_of st (at_period env ?v
        (intersection env (get_output_period s p) (column_start ?col) (column_end ?col))) = None"
      by (simp add: clipped_output_period_def)
    obtain res r1 s1 where cv:
      "compute_variables rec env (column_name ?col) s False
         (intersection env (get_output_period s p) (column_start ?col) (column_end ?col))
         (variables_name s) [] (add_requested ?req0 ?key f) st = (res, r1, s1)"
      by (cases "compute_variables rec env (column_name ?col) s False
         (intersection env (get_output_period s p) (column_start ?col) (column_end ?col))
         (variables_name s) [] (add_requested ?req0 ?key f) st")
    note unfold = SimpleFormula_compute_def Let_def top checks none cv
    show ?thesis
    proof (cases res)
      case (Resolved arguments)
      have "(case other_arguments f s
                    (intersection env (get_output_period s p) (column_start ?col) (column_end ?col))
                    arguments of
               Inl err \<Rightarrow> (Raise err, r1, s1)
             | Inr arguments \<Rightarrow>
                 if set (map fst arguments) \<noteq> required_parameters s
                 then (Raise (AssertionError MissingParameters), r1, s1)
                 else call_function env f s ?key
                   (intersection env (get_output_period s p) (column_start ?col) (column_end ?col))
                   arguments r1 s1)
             = (Return dh, r, st')"
        using run Resolved by (simp add: unfold)
      then show ?thesis
        by (auto simp: clipped_output_period_def split: sum.splits if_splits
            dest: call_function_shape)
    next
      case Missing
      then show ?thesis using compute_variables_not_missing [OF cv] by simp
    next
      case (Failed e)
      then show ?thesis using run by (simp add: unfold)
    next
      case Exhausted
      then show ?thesis using run by (simp add: unfold)
    qed
  qed
  then show ?thesis using acc by simp
qed

text \<open>
  Claim C1, as the code has it. A function that returns \<open>None\<close> leaves the array of the
  dated holder as it is, so that nothing is cached for the output period: the first
  non-lazy computation of \<open>bonus\<close> for 2014 returns a dated holder without array, and the
  second one, in the state the first has left, calls the function again.
\<close>

theorem function_runs_again_without_array:
  "(case compute 1 example_env 6 False (Some year_2014) None empty_state of
      (out, req, st) \<Rightarrow>
        out = Return (''bonus'', Some year_2014) \<and>
        array_of st (''bonus'', Some year_2014) = None \<and>
        function_calls st = [(6, Some year_2014)] \<and>
        (case compute 1 example_env 6 False (Some year_2014) None st of
           (out', req', st') \<Rightarrow>
             out' = Return (''bonus'', Some year_2014) \<and>
             function_calls st' = [(6, Some year_2014), (6, Some year_2014)]))"
  by code_simp

text \<open>
  Claim C1, amended. If the holder has an array for the output period of the formula (the
  period \<open>get_output_period\<close> gives, clipped to the validity window of the column), a
  \<open>SimpleFormula.compute\<close> that passes the opening and the two assertions on the output
  period returns the dated holder of that period and changes nothing: the array is the
  cached one and the log of function calls is as it was. Hence, when a top-level,
  non-lazy computation has returned a dated holder that has an array, the same
  computation run again returns the same dated holder in the same state: the identical
  array, and no further call of any function.
\<close>

theorem memoized_result_is_returned:
  "formula_class env f = SimpleFormula s \<longrightarrow>
     (open_compute env f lazy (Some p) requested = Go p key req \<and>
      output_period_accepted env s p \<and>
      array_of st (at_period env (formula_holder env f) (clipped_output_period env f s p))
        = Some a
      \<longrightarrow> compute (Suc n) env f lazy (Some p) requested st =
            (Return (at_period env (formula_holder env f) (clipped_output_period env f s p)),
             req, st))
     \<and>
     (compute (Suc n) env f False (Some p) None st_before = (Return dh, req_after, st_after) \<and>
      array_of st_after dh = Some a
      \<longrightarrow> (\<exists>req_again. compute (Suc m) env f False (Some p) None st_after =
             (Return dh, req_again, st_after)))"
proof (intro impI conjI)
  assume cls: "formula_class env f = SimpleFormula s"
  {
    assume h: "open_compute env f lazy (Some p) requested = Go p key req \<and>
      output_period_accepted env s p \<and>
      array_of st (at_period env (formula_holder env f) (clipped_output_period env f s p))
        = Some a"
    show "compute (Suc n) env f lazy (Some p) requested st =
            (Return (at_period env (formula_holder env f) (clipped_output_period env f s p)),
             req, st)"
      using cls h SimpleFormula_compute_hit [of env f lazy p requested key req s st a "compute n env"]
      by simp
  }
  {
    assume h: "compute (Suc n) env f False (Some p) None st_before =
                 (Return dh, req_after, st_after) \<and>
      array_of st_after dh = Some a"
    then have run: "SimpleFormula_compute (compute n env) env f s False (Some p) None st_before
                      = (Return dh, req_after, st_after)"
      using cls by simp
    note shape = SimpleFormula_compute_shape [OF run]
    have hit: "array_of st_after (at_period env (formula_holder env f) (clipped_output_period env f s p))
                 = Some a"
      using h shape by simp
    have "compute (Suc m) env f False (Some p) None st_after =
            (Return dh, Map.empty(period_key env f p \<mapsto> {}), st_after)"
      using cls shape
        SimpleFormula_compute_hit [OF open_compute_top shape [THEN conjunct1] hit, of "compute m env"]
      by simp
    then show "\<exists>req_again. compute (Suc m) env f False (Some p) None st_after =
             (Return dh, req_again, st_after)"
      by blast
  }
qed

subsection \<open>Validation of the result\<close>

lemma compute_variables_names:
  "compute_variables rec env cn s lazy op names args req st = (Resolved args', r, s') \<Longrightarrow>
   set (map fst args') = set (map fst args) \<union> set names"
proof (induction names arbitrary: args req st)
  case Nil
  then show ?case by auto
next
  case (Cons name names)
  obtain out r1 s1 where hc:
    "holder_compute rec env (clean_variable_name name) lazy (get_variable_period s op name) req st
       = (out, r1, s1)"
    by (cases "holder_compute rec env (clean_variable_name name) lazy
                 (get_variable_period s op name) req st")
  show ?case
  proof (cases out)
    case (Return vdh)
    show ?thesis
    proof (cases "array_of s1 vdh")
      case None
      then show ?thesis using Cons.prems hc Return by (auto simp: Let_def split: if_splits)
    next
      case (Some a)
      let ?arg = "if ends_with_holder name then HolderArg vdh a else ArrayArg a"
      have "compute_variables rec env cn s lazy op names ((name, ?arg) # args) r1 s1
              = (Resolved args', r, s')"
        using Cons.prems hc Return Some by (simp add: Let_def)
      then have "set (map fst args') = set (map fst ((name, ?arg) # args)) \<union> set names"
        by (rule Cons.IH)
      then show ?thesis by auto
    qed
  next
    case (Raise e)
    then show ?thesis using Cons.prems hc by (auto simp: Let_def)
  next
    case OutOfFuel
    then show ?thesis using Cons.prems hc by (auto simp: Let_def)
  qed
qed

lemma put_argument_names:
  "put_argument required name value_at op (Inr args) = Inr args' \<Longrightarrow>
   set (map fst args') = set (map fst args) \<union> (if required then {name} else {})"
  by (auto simp: put_argument_def split: if_splits option.splits)

lemma put_argument_Inl [simp]: "put_argument required name value_at op (Inl e) = Inl e"
  by (simp add: put_argument_def)

lemma put_accessors_Inl [simp]: "put_accessors s accs op (Inl e) = Inl e"
  by (induction accs) auto

lemma put_accessors_names:
  "put_accessors s accs op (Inr args) = Inr args' \<Longrightarrow>
   set (map fst args') = set (map fst args) \<union> fst ` set accs"
proof (induction accs arbitrary: args)
  case Nil
  then show ?case by simp
next
  case (Cons acc accs)
  obtain name path where acc: "acc = (name, path)" by (cases acc)
  show ?case
  proof (cases "put_argument True name (\<lambda>p. AccessorArg path (get_law_instant s p path)) op
                  (Inr args)")
    case (Inl e)
    then show ?thesis using Cons.prems acc by simp
  next
    case (Inr args1)
    have "set (map fst args1) = set (map fst args) \<union> {name}"
      using put_argument_names [OF Inr] by simp
    moreover have "set (map fst args') = set (map fst args1) \<union> fst ` set accs"
      using Cons.prems acc Inr Cons.IH [of args1] by simp
    ultimately show ?thesis using acc by auto
  qed
qed

lemma other_arguments_names:
  assumes "other_arguments f s op args = Inr args'"
  shows "set (map fst args') =
     set (map fst args)
     \<union> (case legislation_accessor_by_name s of None \<Rightarrow> {} | Some accessors \<Rightarrow> fst ` set accessors)
     \<union> (if requires_legislation s then {''_P''} else {})
     \<union> (if requires_reference_legislation s then {''_defaultP''} else {})
     \<union> (if requires_self s then {''self''} else {})
     \<union> (if requires_period s then {''period''} else {})"
proof -
  let ?accs = "case legislation_accessor_by_name s of None \<Rightarrow> [] | Some accessors \<Rightarrow> accessors"
  let ?p1 = "put_argument (requires_legislation s) ''_P''
                  (\<lambda>p. LegislationArg (fst (snd p))) op (Inr args)"
  obtain a1 where a1: "?p1 = Inr a1"
    using assms by (cases ?p1) (simp_all add: other_arguments_def)
  let ?p2 = "put_argument (requires_reference_legislation s) ''_defaultP''
               (\<lambda>p. ReferenceLegislationArg (fst (snd p))) op (Inr a1)"
  obtain a2 where a2: "?p2 = Inr a2"
    using assms a1 by (cases ?p2) (simp_all add: other_arguments_def)
  let ?a3 = "if requires_self s then (''self'', SelfArg f) # a2 else a2"
  let ?a4 = "if requires_period s then (''period'', PeriodArg op) # ?a3 else ?a3"
  have fin: "put_accessors s ?accs op (Inr ?a4) = Inr args'"
    using assms a1 a2 by (simp add: other_arguments_def Let_def)
  have n1: "set (map fst a1) = set (map fst args) \<union> (if requires_legislation s then {''_P''} else {})"
    by (rule put_argument_names [OF a1])
  have n2: "set (map fst a2) = set (map fst a1)
              \<union> (if requires_reference_legislation s then {''_defaultP''} else {})"
    by (rule put_argument_names [OF a2])
  have n4: "set (map fst ?a4) = set (map fst a2)
              \<union> (if requires_self s then {''self''} else {})
              \<union> (if requires_period s then {''period''} else {})"
    by auto
  have n5: "set (map fst args') = set (map fst ?a4) \<union> fst ` set ?accs"
    by (rule put_accessors_names [OF fin])
  have accs: "fst ` set ?accs =
      (case legislation_accessor_by_name s of None \<Rightarrow> {} | Some accessors \<Rightarrow> fst ` set accessors)"
    by (simp split: option.splits)
  show ?thesis
    unfolding n5 n4 n2 n1 accs by blast
qed

lemma check_array_wrong_size:
  "length (cells a) \<noteq> holder_entity_count env v \<Longrightarrow>
   check_array env v a =
     Inl (AssertionError (WrongSize (length (cells a)) (holder_entity_count env v)))"
  by (simp add: check_array_def Let_def)

lemma check_array_nan:
  "length (cells a) = holder_entity_count env v \<Longrightarrow> \<not> simulation_debug env \<Longrightarrow>
   array_dtype a \<noteq> Other \<Longrightarrow> NaN \<in> set (cells a) \<Longrightarrow>
   check_array env v a =
     Inl (NaNCreationError (column_name (holder_column env v)) (nan_indices (cells a)))"
  by (auto simp: check_array_def Let_def)

lemma set_nan_indices: "set (nan_indices cs) = {i. i < length cs \<and> cs ! i = NaN}"
  by (auto simp: nan_indices_def)

lemma resolved_names:
  assumes inputs: "compute_variables rec env cn s lazy op (variables_name s) []
                   req st = (Resolved args, req1, st1)"
    and others: "other_arguments f s op args = Inr args'"
  shows "set (map fst args') = required_parameters s"
proof -
  have a: "set (map fst args) = set (variables_name s)"
    using compute_variables_names [OF inputs] by simp
  show ?thesis
    unfolding other_arguments_names [OF others] a required_parameters_def by (rule refl)
qed

lemma reach_function:
  assumes cls: "formula_class env f = SimpleFormula s"
    and enter: "open_compute env f lazy (Some p) requested = Go p key req"
    and acc: "output_period_accepted env s p"
    and miss: "array_of st (at_period env (formula_holder env f)
                 (clipped_output_period env f s p)) = None"
    and inputs: "compute_variables (compute n env) env
                   (column_name (holder_column env (formula_holder env f))) s lazy
                   (clipped_output_period env f s p) (variables_name s) []
                   (add_requested req key f) st = (Resolved args, req1, st1)"
    and others: "other_arguments f s (clipped_output_period env f s p) args = Inr args'"
  shows "compute (Suc n) env f lazy (Some p) requested st =
               call_function env f s key (clipped_output_period env f s p) args' req1 st1"
proof -
  have checks: "fst (get_output_period s p) = formula_period_unit s"
    "fst (snd (get_output_period s p)) \<le> fst (snd p) \<and>
       fst (snd p) \<le> stop_instant env (get_output_period s p)"
    using acc by (simp_all add: output_period_accepted_def)
  have names: "fst ` set args' = required_parameters s"
    using resolved_names [OF inputs others] by simp
  note miss' = miss [unfolded clipped_output_period_def]
  note inputs' = inputs [unfolded clipped_output_period_def]
  note others' = others [unfolded clipped_output_period_def]
  have "SimpleFormula_compute (compute n env) env f s lazy (Some p) requested st =
               call_function env f s key (clipped_output_period env f s p) args' req1 st1"
    unfolding SimpleFormula_compute_def clipped_output_period_def
    by (simp add: enter Let_def checks miss' inputs' others' names)
  then show ?thesis using cls by simp
qed

lemma call_function_invalid:
  assumes result: "formula_function s args' = Inr (PyArray a)"
    and bad: "check_array env (formula_holder env f) a = Inl err"
  shows "call_function env f s key op args' req1 st1 =
           (Raise err, req1, st1\<lparr>function_calls := function_calls st1 @ [(f, op)]\<rparr>)"
  using result bad by (simp add: call_function_def Let_def)

text \<open>
  Claim C8. Let \<open>SimpleFormula.compute\<close> reach the call of its function: the opening
  passes, the output period is accepted, the holder has no array for it, the input
  variables are resolved and the other arguments built. If the function returns an array
  whose size is not the count of the entity, \<open>compute\<close> fails with the assertion on the
  size; if the size is right and, outside debug mode, a numeric array holds a
  not-a-number, \<open>compute\<close> fails with \<open>NaNCreationError\<close>, which carries the name of the
  column and the indices of the not-a-number cells. In both cases the arrays of the
  holders are those left by the computation of the inputs: the entry of the output
  period, unset when the function was called, is still unset.
\<close>

theorem invalid_result_is_not_stored:
  assumes cls: "formula_class env f = SimpleFormula s"
    and enter: "open_compute env f lazy (Some p) requested = Go p key req"
    and acc: "output_period_accepted env s p"
    and miss: "array_of st (at_period env (formula_holder env f)
                 (clipped_output_period env f s p)) = None"
    and inputs: "compute_variables (compute n env) env
                   (column_name (holder_column env (formula_holder env f))) s lazy
                   (clipped_output_period env f s p) (variables_name s) []
                   (add_requested req key f) st = (Resolved args, req1, st1)"
    and others: "other_arguments f s (clipped_output_period env f s p) args = Inr args'"
    and result: "formula_function s args' = Inr (PyArray a)"
    and unset: "array_of st1 (at_period env (formula_holder env f)
                 (clipped_output_period env f s p)) = None"
  shows "(length (cells a) \<noteq> holder_entity_count env (formula_holder env f) \<longrightarrow>
           (\<exists>st'. compute (Suc n) env f lazy (Some p) requested st =
              (Raise (AssertionError (WrongSize (length (cells a))
                        (holder_entity_count env (formula_holder env f)))), req1, st')
            \<and> array_of st' = array_of st1
            \<and> array_of st' (at_period env (formula_holder env f)
                  (clipped_output_period env f s p)) = None))
       \<and> (length (cells a) = holder_entity_count env (formula_holder env f) \<and>
          \<not> simulation_debug env \<and> array_dtype a \<noteq> Other \<and> NaN \<in> set (cells a) \<longrightarrow>
           (\<exists>st'. compute (Suc n) env f lazy (Some p) requested st =
              (Raise (NaNCreationError (column_name (holder_column env (formula_holder env f)))
                        (nan_indices (cells a))), req1, st')
            \<and> set (nan_indices (cells a)) = {i. i < length (cells a) \<and> cells a ! i = NaN}
            \<and> array_of st' = array_of st1
            \<and> array_of st' (at_period env (formula_holder env f)
                  (clipped_output_period env f s p)) = None))"
proof -
  let ?v = "formula_holder env f"
  let ?op = "clipped_output_period env f s p"
  let ?st' = "st1\<lparr>function_calls := function_calls st1 @ [(f, ?op)]\<rparr>"
  note run = reach_function [OF cls enter acc miss inputs others]
  have arrays: "array_of ?st' = array_of st1" by simp
  have still: "array_of ?st' (at_period env ?v ?op) = None" using unset by simp
  show ?thesis
  proof (intro conjI impI)
    assume "length (cells a) \<noteq> holder_entity_count env ?v"
    then have "check_array env ?v a =
        Inl (AssertionError (WrongSize (length (cells a)) (holder_entity_count env ?v)))"
      by (rule check_array_wrong_size)
    then have "compute (Suc n) env f lazy (Some p) requested st =
       (Raise (AssertionError (WrongSize (length (cells a)) (holder_entity_count env ?v))),
        req1, ?st')"
      unfolding run by (rule call_function_invalid [OF result])
    then show "\<exists>st'. compute (Suc n) env f lazy (Some p) requested st =
              (Raise (AssertionError (WrongSize (length (cells a))
                        (holder_entity_count env ?v))), req1, st')
            \<and> array_of st' = array_of st1
            \<and> array_of st' (at_period env ?v ?op) = None"
      using arrays still by blast
  next
    assume h: "length (cells a) = holder_entity_count env ?v \<and>
          \<not> simulation_debug env \<and> array_dtype a \<noteq> Other \<and> NaN \<in> set (cells a)"
    then have "check_array env ?v a =
        Inl (NaNCreationError (column_name (holder_column env ?v)) (nan_indices (cells a)))"
      using check_array_nan [of a env ?v] by blast
    then have "compute (Suc n) env f lazy (Some p) requested st =
       (Raise (NaNCreationError (column_name (holder_column env ?v)) (nan_indices (cells a))),
        req1, ?st')"
      unfolding run by (rule call_function_invalid [OF result])
    then show "\<exists>st'. compute (Suc n) env f lazy (Some p) requested st =
              (Raise (NaNCreationError (column_name (holder_column env ?v))
                 (nan_indices (cells a))), req1, st')
            \<and> set (nan_indices (cells a)) = {i. i < length (cells a) \<and> cells a ! i = NaN}
            \<and> array_of st' = array_of st1
            \<and> array_of st' (at_period env ?v ?op) = None"
      using arrays still set_nan_indices [of "cells a"] by blast
  qed
qed

subsection \<open>The claims on the small simulation\<close>

lemma example_class:
  "formula_class example_env 1 = SimpleFormula tax_formula"
  "formula_class example_env 2 = SimpleFormula age_formula"
  "formula_class example_env 3 = SimpleFormula rate_formula"
  by (simp_all add: example_env_def example_formulas_def)

lemma example_holder:
  "formula_holder example_env 1 = ''tax''"
  "formula_holder example_env 2 = ''age''"
  "formula_holder example_env 3 = ''rate''"
  "formula_holder example_env 4 = ''a''"
  by (simp_all add: example_env_def example_names_def)

lemma example_key: "period_key example_env f year_2014 = Some year_2014"
  by (simp add: period_key_def example_env_def example_column_def)

lemma example_at_period: "at_period example_env v period = (v, period)"
  by (simp add: at_period_def example_env_def example_column_def)

lemma example_clipped:
  "clipped_output_period example_env f (example_simple names fn) year_2014 = Some year_2014"
  by (simp add: clipped_output_period_def example_env_def example_simple_def year_2014_def)

lemma example_accepted:
  "output_period_accepted example_env (example_simple names fn) year_2014"
  by (simp add: output_period_accepted_def example_env_def example_simple_def year_2014_def)

theorem cycle_detected_witness:
  "fst (compute 1 example_env 4 True (Some year_2014)
          (Some [Some year_2014 \<mapsto> {4, 5}]) empty_state) = Return (''a'', Some year_2014)
   \<and> fst (compute 1 example_env 4 False (Some year_2014)
          (Some [Some year_2014 \<mapsto> {4, 5}]) empty_state)
       = Raise (AssertionError (InfiniteLoop ''a'' {''a'', ''b''}))
   \<and> fst (compute 3 example_env 4 False (Some year_2014) None empty_state)
       = Raise (AssertionError (InfiniteLoop ''a'' {''a'', ''b''}))
   \<and> fst (compute 3 example_env 4 True (Some year_2014) None empty_state)
       = Return (''a'', Some year_2014)
   \<and> array_of (snd (snd (compute 3 example_env 4 True (Some year_2014) None empty_state)))
       (''a'', Some year_2014) = None"
proof -
  have names: "requested_names example_env {4, 5} = {''a'', ''b''}"
    by (simp add: requested_names_def example_env_def example_names_def example_column_def)
  have col: "column_name (holder_column example_env ''a'') = ''a''"
    by (simp add: example_env_def example_column_def)
  have top: "fst (compute 3 example_env 4 False (Some year_2014) None empty_state)
       = Raise (AssertionError (InfiniteLoop ''a'' {''a'', ''b''}))"
    by code_simp
  have lazy_top: "fst (compute 3 example_env 4 True (Some year_2014) None empty_state)
       = Return (''a'', Some year_2014)"
    by code_simp
  have absent:
    "array_of (snd (snd (compute 3 example_env 4 True (Some year_2014) None empty_state)))
       (''a'', Some year_2014) = None"
    by code_simp
  show ?thesis
    using cycle_detected [of "[Some year_2014 \<mapsto> {4, 5}]" example_env 4 year_2014 "{4, 5}" 0
        empty_state] top lazy_top absent
    by (simp add: example_key example_holder example_at_period names col)
qed

lemma no_inputs:
  "compute_variables rec env cn (example_simple [] fn) lazy op
     (variables_name (example_simple [] fn)) [] req st = (Resolved [], req, st)"
  by (simp add: example_simple_def)

lemma no_other_arguments:
  "other_arguments f (example_simple names fn) op args = Inr args"
  by (simp add: other_arguments_def put_argument_def example_simple_def)

lemma example_enter:
  "open_compute example_env f lazy (Some year_2014) None
     = Go year_2014 (Some year_2014) (Map.empty(Some year_2014 \<mapsto> {}))"
  using open_compute_top [of example_env f lazy year_2014] by (simp add: example_key)

lemma empty_state_unset: "array_of empty_state dh = None"
  by (simp add: empty_state_def)

lemma example_count: "holder_entity_count example_env v = 2"
  by (simp add: example_env_def)

lemma example_not_debug: "\<not> simulation_debug example_env"
  by (simp add: example_env_def)

lemma example_column_name: "column_name (holder_column example_env v) = v"
  by (simp add: example_env_def example_column_def)

theorem invalid_result_is_not_stored_witness:
  "fst (compute 1 example_env 2 False (Some year_2014) None empty_state)
     = Raise (AssertionError (WrongSize 3 2))
   \<and> array_of (snd (snd (compute 1 example_env 2 False (Some year_2014) None empty_state)))
       (''age'', Some year_2014) = None
   \<and> fst (compute 1 example_env 3 False (Some year_2014) None empty_state)
     = Raise (NaNCreationError ''rate'' [1])
   \<and> array_of (snd (snd (compute 1 example_env 3 False (Some year_2014) None empty_state)))
       (''rate'', Some year_2014) = None"
proof -
  let ?req = "Map.empty(Some year_2014 \<mapsto> {})"
  let ?age = "\<lparr>array_dtype = Float, cells = [Num 1, Num 2, Num 3]\<rparr>"
  let ?rate = "\<lparr>array_dtype = Float, cells = [Num 1, NaN]\<rparr>"
  have age: "formula_function age_formula [] = Inr (PyArray ?age)"
    by (simp add: age_formula_def example_simple_def)
  have rate: "formula_function rate_formula [] = Inr (PyArray ?rate)"
    by (simp add: rate_formula_def example_simple_def)
  have acc2: "output_period_accepted example_env age_formula year_2014"
    unfolding age_formula_def by (rule example_accepted)
  have acc3: "output_period_accepted example_env rate_formula year_2014"
    unfolding rate_formula_def by (rule example_accepted)
  have in2: "compute_variables (compute 0 example_env) example_env
               (column_name (holder_column example_env (formula_holder example_env 2)))
               age_formula False (clipped_output_period example_env 2 age_formula year_2014)
               (variables_name age_formula) [] (add_requested ?req (Some year_2014) 2) empty_state
             = (Resolved [], add_requested ?req (Some year_2014) 2, empty_state)"
    unfolding age_formula_def by (rule no_inputs)
  have in3: "compute_variables (compute 0 example_env) example_env
               (column_name (holder_column example_env (formula_holder example_env 3)))
               rate_formula False (clipped_output_period example_env 3 rate_formula year_2014)
               (variables_name rate_formula) [] (add_requested ?req (Some year_2014) 3) empty_state
             = (Resolved [], add_requested ?req (Some year_2014) 3, empty_state)"
    unfolding rate_formula_def by (rule no_inputs)
  have o2: "other_arguments 2 age_formula
              (clipped_output_period example_env 2 age_formula year_2014) [] = Inr []"
    unfolding age_formula_def by (rule no_other_arguments)
  have o3: "other_arguments 3 rate_formula
              (clipped_output_period example_env 3 rate_formula year_2014) [] = Inr []"
    unfolding rate_formula_def by (rule no_other_arguments)
  have c2: "at_period example_env (formula_holder example_env 2)
              (clipped_output_period example_env 2 age_formula year_2014) = (''age'', Some year_2014)"
    unfolding age_formula_def by (simp add: example_clipped example_at_period example_holder)
  have c3: "at_period example_env (formula_holder example_env 3)
              (clipped_output_period example_env 3 rate_formula year_2014)
              = (''rate'', Some year_2014)"
    unfolding rate_formula_def by (simp add: example_clipped example_at_period example_holder)
  note t2 = invalid_result_is_not_stored
      [OF example_class(2) example_enter acc2 empty_state_unset in2 o2 age empty_state_unset,
       THEN conjunct1]
  note t3 = invalid_result_is_not_stored
      [OF example_class(3) example_enter acc3 empty_state_unset in3 o3 rate empty_state_unset,
       THEN conjunct2]
  have "length (cells ?age) \<noteq> holder_entity_count example_env (formula_holder example_env 2)"
    by (simp add: example_count)
  from t2 [rule_format, OF this] obtain st2 where
    r2: "compute (Suc 0) example_env 2 False (Some year_2014) None empty_state =
           (Raise (AssertionError (WrongSize (length (cells ?age))
              (holder_entity_count example_env (formula_holder example_env 2)))),
            add_requested ?req (Some year_2014) 2, st2)"
    and a2: "array_of st2 (at_period example_env (formula_holder example_env 2)
              (clipped_output_period example_env 2 age_formula year_2014)) = None"
    by blast
  have "length (cells ?rate) = holder_entity_count example_env (formula_holder example_env 3) \<and>
        \<not> simulation_debug example_env \<and> array_dtype ?rate \<noteq> Other \<and> NaN \<in> set (cells ?rate)"
    by (simp add: example_count example_not_debug)
  from t3 [rule_format, OF this] obtain st3 where
    r3: "compute (Suc 0) example_env 3 False (Some year_2014) None empty_state =
           (Raise (NaNCreationError
                    (column_name (holder_column example_env (formula_holder example_env 3)))
                    (nan_indices (cells ?rate))),
            add_requested ?req (Some year_2014) 3, st3)"
    and a3: "array_of st3 (at_period example_env (formula_holder example_env 3)
              (clipped_output_period example_env 3 rate_formula year_2014)) = None"
    by blast
  have n: "nan_indices [Num 1, NaN] = [Suc 0]"
    by code_simp
  note a2' = a2 [unfolded c2]
  note a3' = a3 [unfolded c3]
  have one: "(1::nat) = Suc 0" by simp
  show ?thesis
    unfolding one r2 r3 using a2' a3'
    by (simp add: n example_count example_column_name example_holder)
qed

theorem memoized_result_is_returned_witness:
  "fst (compute 2 example_env 1 False (Some year_2014) None empty_state)
     = Return (''tax'', Some year_2014)
   \<and> fst (compute (Suc 0) example_env 1 False (Some year_2014) None after_tax)
     = Return (''tax'', Some year_2014)
   \<and> snd (snd (compute (Suc 0) example_env 1 False (Some year_2014) None after_tax)) = after_tax
   \<and> fst (compute (Suc 0) example_env 1 True (Some year_2014) None after_tax)
     = Return (''tax'', Some year_2014)
   \<and> function_calls after_tax = [(0, Some year_2014), (1, Some year_2014)]"
proof -
  let ?a = "\<lparr>array_dtype = Float, cells = [Num 1000, Num 2000]\<rparr>"
  have first: "fst (compute 2 example_env 1 False (Some year_2014) None empty_state)
     = Return (''tax'', Some year_2014)"
    by code_simp
  have cached: "array_of after_tax (''tax'', Some year_2014) = Some ?a"
    unfolding after_tax_def by code_simp
  have calls: "function_calls after_tax = [(0, Some year_2014), (1, Some year_2014)]"
    unfolding after_tax_def by code_simp
  obtain req1 where run:
    "compute (Suc (Suc 0)) example_env 1 False (Some year_2014) None empty_state
       = (Return (''tax'', Some year_2014), req1, after_tax)"
    using first unfolding after_tax_def
    by (metis prod.collapse numeral_2_eq_2)
  have acc: "output_period_accepted example_env tax_formula year_2014"
    unfolding tax_formula_def by (rule example_accepted)
  have dh: "at_period example_env (formula_holder example_env 1)
              (clipped_output_period example_env 1 tax_formula year_2014)
              = (''tax'', Some year_2014)"
    unfolding tax_formula_def example_clipped example_at_period example_holder(1) by (rule refl)
  note hit = memoized_result_is_returned
     [where env = example_env and f = 1 and s = tax_formula and lazy = True and p = year_2014
        and requested = None and key = "Some year_2014"
        and req = "Map.empty(Some year_2014 \<mapsto> {})" and st = after_tax and a = ?a and n = 0,
      rule_format, OF example_class(1), THEN conjunct1, rule_format]
  note twice = memoized_result_is_returned
     [where env = example_env and f = 1 and s = tax_formula and p = year_2014
        and st_before = empty_state and n = "Suc 0" and dh = "(''tax'', Some year_2014)"
        and req_after = req1 and st_after = after_tax and a = ?a and m = 0,
      rule_format, OF example_class(1), THEN conjunct2, rule_format]
  have lazy: "compute (Suc 0) example_env 1 True (Some year_2014) None after_tax =
            (Return (''tax'', Some year_2014), Map.empty(Some year_2014 \<mapsto> {}), after_tax)"
    using hit example_enter acc cached
    unfolding dh by blast
  have again: "\<exists>req2. compute (Suc 0) example_env 1 False (Some year_2014) None after_tax
                 = (Return (''tax'', Some year_2014), req2, after_tax)"
    using twice run cached by blast
  then obtain req2 where second:
    "compute (Suc 0) example_env 1 False (Some year_2014) None after_tax
       = (Return (''tax'', Some year_2014), req2, after_tax)"
    by blast
  show ?thesis
    unfolding second lazy fst_conv snd_conv using first calls by blast
qed



end
